theory Spec2Isabelle
  imports Main "HOL-Library.Char_ord" "HOL-Library.List_Lexorder"
begin

section \<open>Python values, dictionaries and exceptions\<close>

text \<open>
  The validator of \<^verbatim>\<open>src/metaquery/validator.py\<close> works on strings, lists of strings and
  insertion-ordered dictionaries. A string is a list of 8-bit characters, ordered by
  character code as Python orders \<^verbatim>\<open>str\<close> by code point; code points above 255 are outside
  the model. A dictionary is an association list in insertion order; a well-formed one has
  distinct keys. The two exceptions that the body of \<^verbatim>\<open>validate_v1\<close> could raise are
  values of \<open>exn\<close>.
\<close>

datatype exn = KeyError string | StopIteration

text \<open>The values stored in the \<^verbatim>\<open>dict[str, Any]\<close> objects of warnings and errors.\<close>

datatype pyval =
    PStr string
  | PInt int
  | PStrList "string list"
  | PDict "(string \<times> string list) list"

text \<open>\<^verbatim>\<open>d[k] = v\<close>: an existing key keeps its position, a new key goes last.\<close>

fun dict_set :: "('k \<times> 'v) list \<Rightarrow> 'k \<Rightarrow> 'v \<Rightarrow> ('k \<times> 'v) list" where
  "dict_set [] k v = [(k, v)]"
| "dict_set ((k', v') # d) k v =
     (if k' = k then (k', v) # d else (k', v') # dict_set d k v)"

text \<open>\<^verbatim>\<open>k in d\<close>, \<^verbatim>\<open>d.get(k, default)\<close>, \<^verbatim>\<open>d[k]\<close> (raising KeyError) and \<^verbatim>\<open>d.keys()\<close>.\<close>

definition dict_contains :: "('k \<times> 'v) list \<Rightarrow> 'k \<Rightarrow> bool" where
  "dict_contains d k = (map_of d k \<noteq> None)"

definition dict_get :: "('k \<times> 'v) list \<Rightarrow> 'k \<Rightarrow> 'v \<Rightarrow> 'v" where
  "dict_get d k dflt = (case map_of d k of None \<Rightarrow> dflt | Some v \<Rightarrow> v)"

definition dict_getitem :: "(string \<times> 'v) list \<Rightarrow> string \<Rightarrow> exn + 'v" where
  "dict_getitem d k = (case map_of d k of None \<Rightarrow> Inl (KeyError k) | Some v \<Rightarrow> Inr v)"

definition dict_keys :: "('k \<times> 'v) list \<Rightarrow> 'k list" where
  "dict_keys d = map fst d"

text \<open>\<^verbatim>\<open>d.setdefault(k, []).append(x)\<close>.\<close>

fun setdefault_append :: "('k \<times> 'a list) list \<Rightarrow> 'k \<Rightarrow> 'a \<Rightarrow> ('k \<times> 'a list) list" where
  "setdefault_append [] k x = [(k, [x])]"
| "setdefault_append ((k', xs) # d) k x =
     (if k' = k then (k', xs @ [x]) # d else (k', xs) # setdefault_append d k x)"

text \<open>\<^verbatim>\<open>next(iter(d.keys()))\<close>: the first key, StopIteration on an empty dictionary.\<close>

definition first_key :: "('k \<times> 'v) list \<Rightarrow> exn + 'k" where
  "first_key d = (case d of [] \<Rightarrow> Inl StopIteration | (k, _) # _ \<Rightarrow> Inr k)"

text \<open>\<^verbatim>\<open>str(n)\<close> for an integer and \<^verbatim>\<open>sep.join(xs)\<close>, as used by the f-string messages.\<close>

fun str_nat :: "nat \<Rightarrow> string" where
  "str_nat n =
     (if n < 10 then [char_of (48 + n)]
      else str_nat (n div 10) @ [char_of (48 + n mod 10)])"

declare str_nat.simps [simp del]

definition str_int :: "int \<Rightarrow> string" where
  "str_int i = (if i < 0 then CHR ''-'' # str_nat (nat (- i)) else str_nat (nat i))"

fun str_join :: "string \<Rightarrow> string list \<Rightarrow> string" where
  "str_join sep [] = []"
| "str_join sep [x] = x"
| "str_join sep (x # y # ys) = x @ sep @ str_join sep (y # ys)"

section \<open>The regular expressions\<close>

text \<open>
  \<^verbatim>\<open>SOURCE_RE = ^[A-Z0-9_]+$\<close> and \<^verbatim>\<open>FIELD_ID_RE = ^[A-Za-z0-9_]+$\<close>, used with
  \<^verbatim>\<open>.match\<close>. In Python's \<^verbatim>\<open>re\<close> the anchor \<^verbatim>\<open>$\<close> matches at the end of the string and
  also just before a newline that ends the string, so the text matched by the class may be
  followed by one final newline.
\<close>

definition is_upper :: "char \<Rightarrow> bool" where
  "is_upper c = (65 \<le> (of_char c :: nat) \<and> (of_char c :: nat) \<le> 90)"

definition is_lower :: "char \<Rightarrow> bool" where
  "is_lower c = (97 \<le> (of_char c :: nat) \<and> (of_char c :: nat) \<le> 122)"

definition is_digit :: "char \<Rightarrow> bool" where
  "is_digit c = (48 \<le> (of_char c :: nat) \<and> (of_char c :: nat) \<le> 57)"

definition before_final_newline :: "string \<Rightarrow> string" where
  "before_final_newline s = (if s \<noteq> [] \<and> last s = CHR 0x0A then butlast s else s)"

definition class_plus_match :: "(char \<Rightarrow> bool) \<Rightarrow> string \<Rightarrow> bool" where
  "class_plus_match cls s =
     (before_final_newline s \<noteq> [] \<and> list_all cls (before_final_newline s))"

definition SOURCE_RE_match :: "string \<Rightarrow> bool" where
  "SOURCE_RE_match s =
     class_plus_match (\<lambda>c. is_upper c \<or> is_digit c \<or> c = CHR ''_'') s"

definition FIELD_ID_RE_match :: "string \<Rightarrow> bool" where
  "FIELD_ID_RE_match s =
     class_plus_match (\<lambda>c. is_upper c \<or> is_lower c \<or> is_digit c \<or> c = CHR ''_'') s"

section \<open>Data model\<close>

text \<open>\<^verbatim>\<open>loader.Field\<close>, a frozen dataclass.\<close>

record Field =
  field_id :: string
  datatable_id :: string
  sql_expr :: string
  label :: "string option"

text \<open>
  \<^verbatim>\<open>validator.ValidationResult\<close>. The default of \<^verbatim>\<open>timestamp\<close> is computed by
  \<^verbatim>\<open>datetime.now(timezone.utc)\<close> when the object is created; the formatted clock reading is
  the parameter \<open>now\<close> of the constructor below.
\<close>

record ValidationResult =
  metaquery_version :: string
  schema_version :: int
  timestamp :: string
  decision :: string
  status :: string
  version :: string
  source :: "string option"
  fields_selected :: "string list"
  controls :: "(string \<times> string) list"
  warnings :: "(string \<times> pyval) list list"
  error :: "(string \<times> pyval) list option"

definition ValidationResult_init :: "string \<Rightarrow> string \<Rightarrow> ValidationResult" where
  "ValidationResult_init mv now =
     \<lparr>metaquery_version = mv, schema_version = 1, timestamp = now,
      decision = ''BLOCK'', status = ''ERROR'', version = ''V1'', source = None,
      fields_selected = [], controls = [], warnings = [], error = None\<rparr>"

section \<open>The validator\<close>

text \<open>
  The two in-place updates of the audit record: \<^verbatim>\<open>audit.controls[k] = v\<close> and a run of
  \<^verbatim>\<open>audit.warnings.append(w)\<close>.
\<close>

definition set_control :: "ValidationResult \<Rightarrow> string \<Rightarrow> string \<Rightarrow> ValidationResult" where
  "set_control audit k v = audit\<lparr>controls := dict_set (controls audit) k v\<rparr>"

definition append_warnings ::
  "ValidationResult \<Rightarrow> (string \<times> pyval) list list \<Rightarrow> ValidationResult" where
  "append_warnings audit ws = audit\<lparr>warnings := warnings audit @ ws\<rparr>"

text \<open>\<^verbatim>\<open>_finalize\<close>.\<close>

definition finalize :: "ValidationResult \<Rightarrow> ValidationResult" where
  "finalize audit =
     (let audit = (if decision audit \<noteq> ''ALLOW'' then audit\<lparr>decision := ''BLOCK''\<rparr> else audit);
          audit = (if status audit \<noteq> ''OK'' then audit\<lparr>status := ''ERROR''\<rparr> else audit)
      in audit)"

text \<open>
  The deduplication loop (validator.py lines 85-93) over the remaining selection, with the
  loop variables \<^verbatim>\<open>deduped\<close>, \<^verbatim>\<open>seen\<close> and \<^verbatim>\<open>duplicates\<close>.
\<close>

fun dedupe_loop ::
  "string list \<Rightarrow> string list \<Rightarrow> string set \<Rightarrow> (string \<times> int) list
     \<Rightarrow> string list \<times> (string \<times> int) list" where
  "dedupe_loop [] deduped seen duplicates = (deduped, duplicates)"
| "dedupe_loop (fid # rest) deduped seen duplicates =
     (if fid \<in> seen
      then dedupe_loop rest deduped seen
             (dict_set duplicates fid (dict_get duplicates fid 1 + 1))
      else dedupe_loop rest (deduped @ [fid]) (insert fid seen) duplicates)"

text \<open>The warning appended for one item of \<^verbatim>\<open>duplicates.items()\<close> (lines 98-105).\<close>

definition duplicate_warning :: "string \<times> int \<Rightarrow> (string \<times> pyval) list" where
  "duplicate_warning item =
     (case item of (fid, count) \<Rightarrow>
       [(''code'', PStr ''DUPLICATE_FIELDS''),
        (''field_id'', PStr fid),
        (''count'', PInt count),
        (''message'', PStr (''field_id '' @ [CHR 0x27] @ fid @ [CHR 0x27] @ '' appears ''
            @ str_int count @ '' times. Auto-deduplicated to single occurrence.''))])"

text \<open>The grouping loop (lines 110-113); the catalog lookup raises KeyError on a missing key.\<close>

fun group_loop ::
  "(string \<times> Field) list \<Rightarrow> string list \<Rightarrow> (string \<times> string list) list
     \<Rightarrow> exn + (string \<times> string list) list" where
  "group_loop fields_by_id [] sources = Inr sources"
| "group_loop fields_by_id (fid # rest) sources =
     (case dict_getitem fields_by_id fid of
        Inl e \<Rightarrow> Inl e
      | Inr f \<Rightarrow> group_loop fields_by_id rest (setdefault_append sources (datatable_id f) fid))"

text \<open>The error objects attached on the five failing exits (lines 52-55, 64-68, 75-80, 117-123, 132-136).\<close>

definition error_EMPTY_SELECTION :: "(string \<times> pyval) list" where
  "error_EMPTY_SELECTION =
     [(''code'', PStr ''EMPTY_SELECTION''),
      (''message'', PStr ''No fields selected in selection.yml. At least one field is required.'')]"

definition error_INVALID_FIELD_ID :: "string list \<Rightarrow> (string \<times> pyval) list" where
  "error_INVALID_FIELD_ID invalid_ids =
     [(''code'', PStr ''INVALID_FIELD_ID''),
      (''invalid_field_ids'', PStrList invalid_ids),
      (''message'', PStr ''field_id must be alphanumeric + underscore only.'')]"

definition error_FIELD_NOT_FOUND ::
  "string list \<Rightarrow> (string \<times> Field) list \<Rightarrow> (string \<times> pyval) list" where
  "error_FIELD_NOT_FOUND unknown fields_by_id =
     [(''code'', PStr ''FIELD_NOT_FOUND''),
      (''unknown_field_ids'', PStrList unknown),
      (''available_fields'', PStrList (sort (dict_keys fields_by_id))),
      (''message'', PStr (''field_id(s) not defined in fields.yml: '' @ str_join '', '' unknown))]"

definition error_MULTI_SOURCE_NOT_ALLOWED ::
  "(string \<times> string list) list \<Rightarrow> (string \<times> pyval) list" where
  "error_MULTI_SOURCE_NOT_ALLOWED sources =
     [(''code'', PStr ''MULTI_SOURCE_NOT_ALLOWED''),
      (''sources_found'', PStrList (sort (dict_keys sources))),
      (''fields_by_source'', PDict sources),
      (''message'', PStr ''Fields span multiple sources. V1 restriction: single-source queries only.''),
      (''recommendation'', PStr ''Create a pre-validated view (V2) or define explicit joins (V3).'')]"

definition error_INVALID_SOURCE_NAME :: "string \<Rightarrow> (string \<times> pyval) list" where
  "error_INVALID_SOURCE_NAME only_source =
     [(''code'', PStr ''INVALID_SOURCE_NAME''),
      (''source'', PStr only_source),
      (''message'', PStr ''datatable_id must match pattern ^[A-Z0-9_]+$'')]"

text \<open>
  \<^verbatim>\<open>validate_v1\<close>. The result is \<open>Inl\<close> of an exception or \<open>Inr\<close> of the returned pair.
\<close>

definition validate_v1 ::
  "(string \<times> Field) list \<Rightarrow> string list \<Rightarrow> string \<Rightarrow> string
     \<Rightarrow> exn + (string list \<times> ValidationResult)" where
  "validate_v1 fields_by_id selected_field_ids mq_version now =
    (let audit = ValidationResult_init mq_version now;
         audit = audit\<lparr>fields_selected := selected_field_ids\<rparr>
     in
     if length selected_field_ids = 0 then
       (let audit = set_control audit ''non_empty_selection'' ''FAIL'';
            audit = audit\<lparr>error := Some error_EMPTY_SELECTION\<rparr>
        in Inr (selected_field_ids, finalize audit))
     else
     (let audit = set_control audit ''non_empty_selection'' ''PASS'';
          invalid_ids = filter (\<lambda>fid. \<not> FIELD_ID_RE_match fid) selected_field_ids
      in
      if invalid_ids \<noteq> [] then
        (let audit = set_control audit ''all_fields_exist'' ''FAIL'';
             audit = audit\<lparr>error := Some (error_INVALID_FIELD_ID invalid_ids)\<rparr>
         in Inr (selected_field_ids, finalize audit))
      else
      (let unknown = filter (\<lambda>fid. \<not> dict_contains fields_by_id fid) selected_field_ids
       in
       if unknown \<noteq> [] then
         (let audit = set_control audit ''all_fields_exist'' ''FAIL'';
              audit = audit\<lparr>error := Some (error_FIELD_NOT_FOUND unknown fields_by_id)\<rparr>
          in Inr (selected_field_ids, finalize audit))
       else
       (let audit = set_control audit ''all_fields_exist'' ''PASS'';
            (deduped, duplicates) = dedupe_loop selected_field_ids [] {} [];
            audit =
              (if duplicates \<noteq> [] then
                 append_warnings (set_control audit ''no_duplicates'' ''PASS'')
                   (map duplicate_warning duplicates)
               else set_control audit ''no_duplicates'' ''PASS'')
        in
        case group_loop fields_by_id deduped [] of
          Inl e \<Rightarrow> Inl e
        | Inr sources \<Rightarrow>
          if length sources \<noteq> 1 then
            (let audit = set_control audit ''single_source'' ''FAIL'';
                 audit = audit\<lparr>error := Some (error_MULTI_SOURCE_NOT_ALLOWED sources)\<rparr>
             in Inr (deduped, finalize audit))
          else
          (let audit = set_control audit ''single_source'' ''PASS''
           in
           case first_key sources of
             Inl e \<Rightarrow> Inl e
           | Inr only_source \<Rightarrow>
             if \<not> SOURCE_RE_match only_source then
               (let audit = set_control audit ''valid_source_name'' ''FAIL'';
                    audit = audit\<lparr>error := Some (error_INVALID_SOURCE_NAME only_source)\<rparr>
                in Inr (deduped, finalize audit))
             else
               (let audit = set_control audit ''valid_source_name'' ''PASS'';
                    audit = audit\<lparr>source := Some only_source\<rparr>;
                    audit = audit\<lparr>decision := ''ALLOW''\<rparr>;
                    audit = audit\<lparr>status := ''OK''\<rparr>;
                    audit = audit\<lparr>fields_selected := deduped\<rparr>
                in Inr (deduped, finalize audit)))))))"

section \<open>The validator on a store\<close>

text \<open>
  Python passes the catalog and the selection by reference. To speak of what a call does
  to the objects it is given, this section puts them in a store: a list of objects, an
  address being an index, with allocation at the end. The world of a call is the store
  together with the current reading of the system clock, which \<^verbatim>\<open>ValidationResult\<close> formats
  into \<^verbatim>\<open>timestamp\<close>. The store holds the two arguments and the list \<^verbatim>\<open>deduped\<close>, which the
  function creates, appends to, and returns by reference; the audit record and the
  dictionaries it owns are created by the call and returned by value.
\<close>

type_synonym addr = nat

datatype obj = OList "string list" | ODict "(string \<times> Field) list"

record world =
  heap :: "obj list"
  clock :: string

text \<open>
  A run on the store ends with an exception of the body or, when an address does not hold
  an object of the kind the parameter's type promises, with \<open>BadReference\<close>.
\<close>

datatype store_error = Raised exn | BadReference addr

definition read_list :: "obj list \<Rightarrow> addr \<Rightarrow> string list option" where
  "read_list h a =
     (if a < length h then (case h ! a of OList xs \<Rightarrow> Some xs | ODict _ \<Rightarrow> None) else None)"

definition read_dict :: "obj list \<Rightarrow> addr \<Rightarrow> (string \<times> Field) list option" where
  "read_dict h a =
     (if a < length h then (case h ! a of ODict d \<Rightarrow> Some d | OList _ \<Rightarrow> None) else None)"

definition alloc :: "obj list \<Rightarrow> obj \<Rightarrow> addr \<times> obj list" where
  "alloc h ob = (length h, h @ [ob])"

definition list_append :: "obj list \<Rightarrow> addr \<Rightarrow> string \<Rightarrow> obj list option" where
  "list_append h a x =
     (case read_list h a of None \<Rightarrow> None | Some xs \<Rightarrow> Some (h[a := OList (xs @ [x])]))"

text \<open>
  The deduplication loop on the store (lines 85-93). \<^verbatim>\<open>for fid in selected_field_ids\<close>
  reads the list object at each step, at the index \<open>i\<close> of the iterator, and
  \<^verbatim>\<open>deduped.append(fid)\<close> writes the object at the address \<open>deduped\<close>.
\<close>

function dedupe_loop_st ::
  "obj list \<Rightarrow> addr \<Rightarrow> addr \<Rightarrow> nat \<Rightarrow> string set \<Rightarrow> (string \<times> int) list
     \<Rightarrow> store_error + (obj list \<times> (string \<times> int) list)" where
  "dedupe_loop_st h selected_field_ids deduped i seen duplicates =
     (case read_list h selected_field_ids of
        None \<Rightarrow> Inl (BadReference selected_field_ids)
      | Some items \<Rightarrow>
          if i < length items then
            (if items ! i \<in> seen
             then dedupe_loop_st h selected_field_ids deduped (Suc i) seen
                    (dict_set duplicates (items ! i) (dict_get duplicates (items ! i) 1 + 1))
             else (case list_append h deduped (items ! i) of
                     None \<Rightarrow> Inl (BadReference deduped)
                   | Some h' \<Rightarrow>
                       dedupe_loop_st h' selected_field_ids deduped (Suc i)
                         (insert (items ! i) seen) duplicates))
          else Inr (h, duplicates))"
  by pat_completeness auto
termination
proof (relation "measure (\<lambda>(h, s, d, i, seen, dups).
    case read_list h s of None \<Rightarrow> 0
    | Some xs \<Rightarrow> (length xs - i) + card (set (drop i xs) - seen))")
  show "wf (measure (\<lambda>(h, s, d, i, seen, dups).
    case read_list h s of None \<Rightarrow> 0
    | Some xs \<Rightarrow> (length xs - i) + card (set (drop i xs) - seen)))" by simp
next
  fix h :: "obj list" and s d i :: nat and seen :: "string set"
    and dups :: "(string \<times> int) list" and xs :: "string list"
  assume r: "read_list h s = Some xs" and i: "i < length xs" and "xs ! i \<in> seen"
  have "set (drop (Suc i) xs) \<subseteq> set (drop i xs)"
    by (rule set_drop_subset_set_drop) simp
  then have "set (drop (Suc i) xs) - seen \<subseteq> set (drop i xs) - seen" by blast
  then have "card (set (drop (Suc i) xs) - seen) \<le> card (set (drop i xs) - seen)"
    by (intro card_mono) simp_all
  with r i show "((h, s, d, Suc i, seen,
        dict_set dups (xs ! i) (dict_get dups (xs ! i) 1 + 1)), (h, s, d, i, seen, dups))
      \<in> measure (\<lambda>(h, s, d, i, seen, dups).
          case read_list h s of None \<Rightarrow> 0
          | Some xs \<Rightarrow> (length xs - i) + card (set (drop i xs) - seen))"
    by simp
next
  fix h h' :: "obj list" and s d i :: nat and seen :: "string set"
    and dups :: "(string \<times> int) list" and xs :: "string list"
  assume r: "read_list h s = Some xs" and i: "i < length xs" and ns: "xs ! i \<notin> seen"
    and ap: "list_append h d (xs ! i) = Some h'"
  let ?x = "xs ! i"
  from ap obtain acc where acc: "read_list h d = Some acc" and h': "h' = h[d := OList (acc @ [?x])]"
    by (auto simp: list_append_def split: option.splits)
  have dx: "drop i xs = ?x # drop (Suc i) xs" using i by (simp add: Cons_nth_drop_Suc)
  have xin: "?x \<in> set (drop i xs) - seen" using ns dx by simp
  show "((h', s, d, Suc i, insert ?x seen, dups), (h, s, d, i, seen, dups))
      \<in> measure (\<lambda>(h, s, d, i, seen, dups).
          case read_list h s of None \<Rightarrow> 0
          | Some xs \<Rightarrow> (length xs - i) + card (set (drop i xs) - seen))"
  proof (cases "d = s")
    case True
    with r acc have "acc = xs" by simp
    with True r h' have r': "read_list h' s = Some (xs @ [?x])"
      by (auto simp: read_list_def split: if_splits)
    have "set (drop (Suc i) (xs @ [?x])) - insert ?x seen \<subset> set (drop i xs) - seen"
      using xin i dx by auto
    then have "card (set (drop (Suc i) (xs @ [?x])) - insert ?x seen) < card (set (drop i xs) - seen)"
      by (intro psubset_card_mono) simp_all
    with r r' i show ?thesis by simp
  next
    case False
    with r h' have r': "read_list h' s = Some xs"
      by (auto simp: read_list_def split: if_splits)
    have "set (drop (Suc i) xs) - insert ?x seen \<subseteq> set (drop i xs) - seen"
      using dx by auto
    then have "card (set (drop (Suc i) xs) - insert ?x seen) \<le> card (set (drop i xs) - seen)"
      by (intro card_mono) simp_all
    with r r' i show ?thesis by simp
  qed
qed

declare dedupe_loop_st.simps [simp del]

text \<open>
  \<^verbatim>\<open>validate_v1\<close> on the store: the parameters are the addresses of the catalog and of the
  selection, the first component of the result is a reference (the selection's own address
  on the three early exits, the address of \<^verbatim>\<open>deduped\<close> afterwards), and the world after the
  call is returned. \<^verbatim>\<open>list(...)\<close>, the comprehensions and the grouping loop read the store and
  write nothing to it.
\<close>

definition validate_v1_st ::
  "world \<Rightarrow> addr \<Rightarrow> addr \<Rightarrow> string
     \<Rightarrow> store_error + ((addr \<times> ValidationResult) \<times> world)" where
  "validate_v1_st w fields_by_id selected_field_ids mq_version =
    (case read_list (heap w) selected_field_ids of
       None \<Rightarrow> Inl (BadReference selected_field_ids)
     | Some items \<Rightarrow>
    (case read_dict (heap w) fields_by_id of
       None \<Rightarrow> Inl (BadReference fields_by_id)
     | Some catalog \<Rightarrow>
    (let audit = ValidationResult_init mq_version (clock w);
         audit = audit\<lparr>fields_selected := items\<rparr>
     in
     if length items = 0 then
       (let audit = set_control audit ''non_empty_selection'' ''FAIL'';
            audit = audit\<lparr>error := Some error_EMPTY_SELECTION\<rparr>
        in Inr ((selected_field_ids, finalize audit), w))
     else
     (let audit = set_control audit ''non_empty_selection'' ''PASS'';
          invalid_ids = filter (\<lambda>fid. \<not> FIELD_ID_RE_match fid) items
      in
      if invalid_ids \<noteq> [] then
        (let audit = set_control audit ''all_fields_exist'' ''FAIL'';
             audit = audit\<lparr>error := Some (error_INVALID_FIELD_ID invalid_ids)\<rparr>
         in Inr ((selected_field_ids, finalize audit), w))
      else
      (let unknown = filter (\<lambda>fid. \<not> dict_contains catalog fid) items
       in
       if unknown \<noteq> [] then
         (let audit = set_control audit ''all_fields_exist'' ''FAIL'';
              audit = audit\<lparr>error := Some (error_FIELD_NOT_FOUND unknown catalog)\<rparr>
          in Inr ((selected_field_ids, finalize audit), w))
       else
       (let audit = set_control audit ''all_fields_exist'' ''PASS'';
            (deduped, h) = alloc (heap w) (OList [])
        in
        case dedupe_loop_st h selected_field_ids deduped 0 {} [] of
          Inl e \<Rightarrow> Inl e
        | Inr (h, duplicates) \<Rightarrow>
        (let audit =
              (if duplicates \<noteq> [] then
                 append_warnings (set_control audit ''no_duplicates'' ''PASS'')
                   (map duplicate_warning duplicates)
               else set_control audit ''no_duplicates'' ''PASS'')
         in
         case read_list h deduped of
           None \<Rightarrow> Inl (BadReference deduped)
         | Some deduped_items \<Rightarrow>
         (case read_dict h fields_by_id of
            None \<Rightarrow> Inl (BadReference fields_by_id)
          | Some catalog \<Rightarrow>
         (case group_loop catalog deduped_items [] of
            Inl e \<Rightarrow> Inl (Raised e)
          | Inr sources \<Rightarrow>
            if length sources \<noteq> 1 then
              (let audit = set_control audit ''single_source'' ''FAIL'';
                   audit = audit\<lparr>error := Some (error_MULTI_SOURCE_NOT_ALLOWED sources)\<rparr>
               in Inr ((deduped, finalize audit), w\<lparr>heap := h\<rparr>))
            else
            (let audit = set_control audit ''single_source'' ''PASS''
             in
             case first_key sources of
               Inl e \<Rightarrow> Inl (Raised e)
             | Inr only_source \<Rightarrow>
               if \<not> SOURCE_RE_match only_source then
                 (let audit = set_control audit ''valid_source_name'' ''FAIL'';
                      audit = audit\<lparr>error := Some (error_INVALID_SOURCE_NAME only_source)\<rparr>
                  in Inr ((deduped, finalize audit), w\<lparr>heap := h\<rparr>))
               else
                 (let audit = set_control audit ''valid_source_name'' ''PASS'';
                      audit = audit\<lparr>source := Some only_source\<rparr>;
                      audit = audit\<lparr>decision := ''ALLOW''\<rparr>;
                      audit = audit\<lparr>status := ''OK''\<rparr>;
                      audit = audit\<lparr>fields_selected := deduped_items\<rparr>
                  in Inr ((deduped, finalize audit), w\<lparr>heap := h\<rparr>))))))))))))"

section \<open>Notions used to state the properties\<close>

text \<open>
  The conditions of the three early exits, as the source computes them: the list
  \<^verbatim>\<open>invalid_ids\<close> (line 61) and the list \<^verbatim>\<open>unknown\<close> (line 72).
\<close>

definition invalid_ids_of :: "string list \<Rightarrow> string list" where
  "invalid_ids_of selected_field_ids =
     filter (\<lambda>fid. \<not> FIELD_ID_RE_match fid) selected_field_ids"

definition unknown_of :: "(string \<times> Field) list \<Rightarrow> string list \<Rightarrow> string list" where
  "unknown_of fields_by_id selected_field_ids =
     filter (\<lambda>fid. \<not> dict_contains fields_by_id fid) selected_field_ids"

text \<open>
  The source table a field id resolves to in the catalog, the source tables of a list of
  ids (in order, ids missing from the catalog skipped), and the grouping of ids by source
  table: sources in order of first encounter, each with its ids in order.
\<close>

definition source_of :: "(string \<times> Field) list \<Rightarrow> string \<Rightarrow> string option" where
  "source_of fields_by_id fid = map_option datatable_id (map_of fields_by_id fid)"

definition datatable_ids :: "(string \<times> Field) list \<Rightarrow> string list \<Rightarrow> string list" where
  "datatable_ids fields_by_id ids = List.map_filter (source_of fields_by_id) ids"

definition fields_by_source ::
  "(string \<times> Field) list \<Rightarrow> string list \<Rightarrow> (string \<times> string list) list" where
  "fields_by_source fields_by_id ids =
     map (\<lambda>s. (s, filter (\<lambda>fid. source_of fields_by_id fid = Some s) ids))
       (rev (remdups (rev (datatable_ids fields_by_id ids))))"

text \<open>
  The six checks of \<^verbatim>\<open>validate_v1\<close> in the order of the source, the control key each one
  writes, and the trace of a call: the checks whose condition the body evaluates, each with
  its outcome (\<open>True\<close> for passed), following the branches of \<^verbatim>\<open>validate_v1\<close> one by one.
  A run that raised inside the grouping loop or at \<^verbatim>\<open>next(iter(...))\<close> would end its
  trace before the check it was computing.
\<close>

datatype check =
    NonEmptySelection
  | FieldIdSyntax
  | FieldExistence
  | NoDuplicates
  | SingleSource
  | ValidSourceName

definition check_order :: "check list" where
  "check_order =
     [NonEmptySelection, FieldIdSyntax, FieldExistence, NoDuplicates, SingleSource,
      ValidSourceName]"

fun control_key :: "check \<Rightarrow> string" where
  "control_key NonEmptySelection = ''non_empty_selection''"
| "control_key FieldIdSyntax = ''all_fields_exist''"
| "control_key FieldExistence = ''all_fields_exist''"
| "control_key NoDuplicates = ''no_duplicates''"
| "control_key SingleSource = ''single_source''"
| "control_key ValidSourceName = ''valid_source_name''"

definition control_entry :: "check \<times> bool \<Rightarrow> string \<times> string" where
  "control_entry ce = (control_key (fst ce), if snd ce then ''PASS'' else ''FAIL'')"

definition checks_executed ::
  "(string \<times> Field) list \<Rightarrow> string list \<Rightarrow> (check \<times> bool) list" where
  "checks_executed fields_by_id selected_field_ids =
    (if length selected_field_ids = 0 then [(NonEmptySelection, False)]
     else if filter (\<lambda>fid. \<not> FIELD_ID_RE_match fid) selected_field_ids \<noteq> [] then
       [(NonEmptySelection, True), (FieldIdSyntax, False)]
     else if filter (\<lambda>fid. \<not> dict_contains fields_by_id fid) selected_field_ids \<noteq> [] then
       [(NonEmptySelection, True), (FieldIdSyntax, True), (FieldExistence, False)]
     else
       (let pre = [(NonEmptySelection, True), (FieldIdSyntax, True), (FieldExistence, True),
                   (NoDuplicates, True)]
        in
        case group_loop fields_by_id (fst (dedupe_loop selected_field_ids [] {} [])) [] of
          Inl e \<Rightarrow> pre
        | Inr sources \<Rightarrow>
          if length sources \<noteq> 1 then pre @ [(SingleSource, False)]
          else
            (case first_key sources of
               Inl e \<Rightarrow> pre @ [(SingleSource, True)]
             | Inr only_source \<Rightarrow>
               if \<not> SOURCE_RE_match only_source
               then pre @ [(SingleSource, True), (ValidSourceName, False)]
               else pre @ [(SingleSource, True), (ValidSourceName, True)])))"

text \<open>
  The error code attached by the exit of each check (lines 53, 65, 76, 118, 133); the
  deduplication step has no failing exit.
\<close>

fun error_code :: "check \<Rightarrow> string option" where
  "error_code NonEmptySelection = Some ''EMPTY_SELECTION''"
| "error_code FieldIdSyntax = Some ''INVALID_FIELD_ID''"
| "error_code FieldExistence = Some ''FIELD_NOT_FOUND''"
| "error_code NoDuplicates = None"
| "error_code SingleSource = Some ''MULTI_SOURCE_NOT_ALLOWED''"
| "error_code ValidSourceName = Some ''INVALID_SOURCE_NAME''"

text \<open>
  What each check requires of the catalog and the selection, stated on the inputs alone:
  the selection is non-empty; every id is well-formed; every id is in the catalog; nothing
  for the deduplication; the ids resolve to exactly one source table; every source table
  the ids resolve to has a well-formed name.
\<close>

fun check_holds :: "(string \<times> Field) list \<Rightarrow> string list \<Rightarrow> check \<Rightarrow> bool" where
  "check_holds fields_by_id sel NonEmptySelection = (sel \<noteq> [])"
| "check_holds fields_by_id sel FieldIdSyntax = list_all FIELD_ID_RE_match sel"
| "check_holds fields_by_id sel FieldExistence = list_all (dict_contains fields_by_id) sel"
| "check_holds fields_by_id sel NoDuplicates = True"
| "check_holds fields_by_id sel SingleSource =
     (length (remdups (datatable_ids fields_by_id sel)) = 1)"
| "check_holds fields_by_id sel ValidSourceName =
     list_all SOURCE_RE_match (datatable_ids fields_by_id sel)"

text \<open>The catalog of \<^verbatim>\<open>tests/test_validator.py\<close> (\<^verbatim>\<open>_fields()\<close>).\<close>

definition test_fields :: "(string \<times> Field) list" where
  "test_fields =
     [(''model_id'', \<lparr>field_id = ''model_id'', datatable_id = ''MODELS'',
         sql_expr = ''model_id'', label = Some ''Model ID''\<rparr>),
      (''run_date'', \<lparr>field_id = ''run_date'', datatable_id = ''MODELS'',
         sql_expr = ''run_date'', label = Some ''Run Date''\<rparr>),
      (''pd'', \<lparr>field_id = ''pd'', datatable_id = ''MODELS'',
         sql_expr = ''pd'', label = Some ''Probability of Default''\<rparr>),
      (''customer_age'', \<lparr>field_id = ''customer_age'', datatable_id = ''CUSTOMERS'',
         sql_expr = ''age'', label = Some ''Customer Age''\<rparr>)]"

section \<open>Dictionaries and the two loops\<close>

lemma map_of_dict_set: "map_of (dict_set d k v) = (map_of d)(k \<mapsto> v)"
  by (induction d k v rule: dict_set.induct) auto

lemma keys_dict_set:
  "map fst (dict_set d k v) = (if k \<in> set (map fst d) then map fst d else map fst d @ [k])"
  by (induction d k v rule: dict_set.induct) auto

lemma distinct_dict_set: "distinct (map fst d) \<Longrightarrow> distinct (map fst (dict_set d k v))"
  by (simp add: keys_dict_set)

lemma count_list_snoc: "count_list (xs @ [x]) y = count_list xs y + (if x = y then 1 else 0)"
  by (induction xs) auto

lemma count_list_pos_iff: "0 < count_list xs x \<longleftrightarrow> x \<in> set xs"
  by (induction xs) auto

lemma dedupe_loop_inv:
  assumes "deduped = rev (remdups (rev pre))" and "seen = set pre"
    and "distinct (map fst dups)"
    and "\<And>fid. map_of dups fid = (if 1 < count_list pre fid then Some (int (count_list pre fid)) else None)"
    and "dedupe_loop rest deduped seen dups = (D, U)"
  shows "D = rev (remdups (rev (pre @ rest))) \<and> distinct (map fst U) \<and>
     (\<forall>fid. map_of U fid = (if 1 < count_list (pre @ rest) fid then Some (int (count_list (pre @ rest) fid)) else None))"
  using assms
proof (induction rest arbitrary: pre deduped seen dups)
  case Nil
  then show ?case by simp
next
  case (Cons x rest)
  show ?case
  proof (cases "x \<in> seen")
    case True
    let ?dups = "dict_set dups x (dict_get dups x 1 + 1)"
    from True Cons.prems have run: "dedupe_loop rest deduped seen ?dups = (D, U)" by simp
    have a1: "deduped = rev (remdups (rev (pre @ [x])))" using True Cons.prems(1,2) by simp
    have a2: "seen = set (pre @ [x])" using True Cons.prems(2) by auto
    have a3: "distinct (map fst ?dups)" using Cons.prems(3) by (rule distinct_dict_set)
    have xin: "0 < count_list pre x" using True Cons.prems(2) by (simp add: count_list_pos_iff)
    have a4: "map_of ?dups fid = (if 1 < count_list (pre @ [x]) fid then Some (int (count_list (pre @ [x]) fid)) else None)" for fid
      using xin Cons.prems(4)[of fid] Cons.prems(4)[of x]
      by (auto simp: map_of_dict_set count_list_snoc dict_get_def)
    from Cons.IH[OF a1 a2 a3 a4 run] show ?thesis by simp
  next
    case False
    from False Cons.prems have run: "dedupe_loop rest (deduped @ [x]) (insert x seen) dups = (D, U)" by simp
    have a1: "deduped @ [x] = rev (remdups (rev (pre @ [x])))" using False Cons.prems(1,2) by simp
    have a2: "insert x seen = set (pre @ [x])" using Cons.prems(2) by auto
    have xin: "count_list pre x = 0" using False Cons.prems(2) count_list_pos_iff[of pre x] by simp
    have a4: "map_of dups fid = (if 1 < count_list (pre @ [x]) fid then Some (int (count_list (pre @ [x]) fid)) else None)" for fid
      using xin Cons.prems(4)[of fid]
      by (auto simp: count_list_snoc)
    from Cons.IH[OF a1 a2 Cons.prems(3) a4 run] show ?thesis by simp
  qed
qed

lemma dedupe_loop_spec:
  assumes "dedupe_loop sel [] {} [] = (D, U)"
  shows "D = rev (remdups (rev sel))" and "distinct (map fst U)"
    and "map_of U fid = (if 1 < count_list sel fid then Some (int (count_list sel fid)) else None)"
  using dedupe_loop_inv[of "[]" "[]" "{}" "[]" sel D U] assms by simp_all


lemma datatable_ids_snoc:
  "datatable_ids f (xs @ [x]) = datatable_ids f xs @ (case source_of f x of None \<Rightarrow> [] | Some t \<Rightarrow> [t])"
  by (simp add: datatable_ids_def List.map_filter_def split: option.splits)

lemma set_datatable_ids: "set (datatable_ids f xs) = {t. \<exists>x \<in> set xs. source_of f x = Some t}"
  by (force simp: datatable_ids_def List.map_filter_def)

lemma setdefault_append_map:
  "distinct ks \<Longrightarrow> setdefault_append (map (\<lambda>s. (s, g s)) ks) t x =
     (if t \<in> set ks then map (\<lambda>s. (s, if s = t then g s @ [x] else g s)) ks
      else map (\<lambda>s. (s, g s)) ks @ [(t, [x])])"
  by (induction ks) auto

lemma fields_by_source_snoc:
  assumes "source_of f x = Some t"
  shows "setdefault_append (fields_by_source f pre) t x = fields_by_source f (pre @ [x])"
proof -
  let ?K = "rev (remdups (rev (datatable_ids f pre)))"
  have dK: "distinct ?K" by simp
  have sK: "set ?K = set (datatable_ids f pre)" by simp
  show ?thesis
  proof (cases "t \<in> set (datatable_ids f pre)")
    case True
    then show ?thesis
      using assms dK
      by (simp add: fields_by_source_def setdefault_append_map datatable_ids_snoc)
  next
    case False
    then have none: "filter (\<lambda>fid. source_of f fid = Some t) pre = []"
      by (auto simp: set_datatable_ids filter_empty_conv)
    show ?thesis
      using assms dK False none
      by (auto simp: fields_by_source_def setdefault_append_map datatable_ids_snoc)
  qed
qed

lemma group_loop_inv:
  assumes "\<forall>x \<in> set xs. dict_contains f x"
  shows "group_loop f xs (fields_by_source f pre) = Inr (fields_by_source f (pre @ xs))"
  using assms
proof (induction xs arbitrary: pre)
  case Nil
  then show ?case by simp
next
  case (Cons x xs)
  then obtain fld where fld: "map_of f x = Some fld" by (auto simp: dict_contains_def)
  then have src: "source_of f x = Some (datatable_id fld)" by (simp add: source_of_def)
  have "group_loop f (x # xs) (fields_by_source f pre)
      = group_loop f xs (fields_by_source f (pre @ [x]))"
    using fld fields_by_source_snoc[OF src, of pre] by (simp add: dict_getitem_def)
  also have "\<dots> = Inr (fields_by_source f ((pre @ [x]) @ xs))"
    using Cons.prems by (intro Cons.IH) simp
  finally show ?case by simp
qed

lemma group_loop_spec:
  "\<forall>x \<in> set xs. dict_contains f x \<Longrightarrow> group_loop f xs [] = Inr (fields_by_source f xs)"
  using group_loop_inv[of xs f "[]"] by (simp add: fields_by_source_def datatable_ids_def List.map_filter_def)


lemma length_fields_by_source:
  "length (fields_by_source f xs) = length (remdups (datatable_ids f xs))"
proof -
  have "length (fields_by_source f xs) = card (set (datatable_ids f xs))"
    by (simp add: fields_by_source_def length_remdups_card_conv)
  then show ?thesis by (simp add: length_remdups_card_conv)
qed


section \<open>The six exits of the validator\<close>

lemma validate_v1_empty:
  "validate_v1 f [] mv now =
     Inr ([], \<lparr>metaquery_version = mv, schema_version = 1, timestamp = now,
        decision = ''BLOCK'', status = ''ERROR'', version = ''V1'', source = None,
        fields_selected = [], controls = [(''non_empty_selection'', ''FAIL'')],
        warnings = [], error = Some error_EMPTY_SELECTION\<rparr>)"
  by (simp add: validate_v1_def ValidationResult_init_def finalize_def set_control_def append_warnings_def)

lemma validate_v1_invalid:
  assumes "sel \<noteq> []" and "invalid_ids_of sel \<noteq> []"
  shows "validate_v1 f sel mv now =
     Inr (sel, \<lparr>metaquery_version = mv, schema_version = 1, timestamp = now,
        decision = ''BLOCK'', status = ''ERROR'', version = ''V1'', source = None,
        fields_selected = sel,
        controls = [(''non_empty_selection'', ''PASS''), (''all_fields_exist'', ''FAIL'')],
        warnings = [], error = Some (error_INVALID_FIELD_ID (invalid_ids_of sel))\<rparr>)"
  using assms
  by (simp add: validate_v1_def ValidationResult_init_def finalize_def set_control_def append_warnings_def invalid_ids_of_def Let_def)

lemma validate_v1_unknown:
  assumes "sel \<noteq> []" and "invalid_ids_of sel = []" and "unknown_of f sel \<noteq> []"
  shows "validate_v1 f sel mv now =
     Inr (sel, \<lparr>metaquery_version = mv, schema_version = 1, timestamp = now,
        decision = ''BLOCK'', status = ''ERROR'', version = ''V1'', source = None,
        fields_selected = sel,
        controls = [(''non_empty_selection'', ''PASS''), (''all_fields_exist'', ''FAIL'')],
        warnings = [], error = Some (error_FIELD_NOT_FOUND (unknown_of f sel) f)\<rparr>)"
  using assms
  by (simp add: validate_v1_def ValidationResult_init_def finalize_def set_control_def append_warnings_def invalid_ids_of_def
      unknown_of_def Let_def)

lemma unknown_of_Nil_iff: "unknown_of f sel = [] \<longleftrightarrow> (\<forall>x \<in> set sel. dict_contains f x)"
  by (auto simp: unknown_of_def filter_empty_conv)

lemma invalid_ids_of_Nil_iff: "invalid_ids_of sel = [] \<longleftrightarrow> (\<forall>x \<in> set sel. FIELD_ID_RE_match x)"
  by (auto simp: invalid_ids_of_def filter_empty_conv)

lemma group_loop_deduped:
  assumes "unknown_of f sel = []"
  shows "group_loop f (rev (remdups (rev sel))) [] = Inr (fields_by_source f (rev (remdups (rev sel))))"
  using assms by (intro group_loop_spec) (simp add: unknown_of_Nil_iff)

lemma fields_by_source_nonempty:
  assumes "sel \<noteq> []" and "unknown_of f sel = []"
  shows "fields_by_source f (rev (remdups (rev sel))) \<noteq> []"
proof -
  obtain x where x: "x \<in> set sel" using assms(1) by (cases sel) auto
  then obtain fld where "map_of f x = Some fld"
    using assms(2) by (auto simp: unknown_of_Nil_iff dict_contains_def)
  then have "source_of f x = Some (datatable_id fld)" by (simp add: source_of_def)
  with x have "datatable_id fld \<in> set (datatable_ids f (rev (remdups (rev sel))))"
    by (auto simp: set_datatable_ids)
  then show ?thesis by (auto simp: fields_by_source_def)
qed

lemma validate_v1_multi:
  assumes "sel \<noteq> []" and "invalid_ids_of sel = []" and "unknown_of f sel = []"
    and "length (fields_by_source f (rev (remdups (rev sel)))) \<noteq> 1"
  shows "validate_v1 f sel mv now =
     Inr (rev (remdups (rev sel)),
       \<lparr>metaquery_version = mv, schema_version = 1, timestamp = now,
        decision = ''BLOCK'', status = ''ERROR'', version = ''V1'', source = None,
        fields_selected = sel,
        controls = [(''non_empty_selection'', ''PASS''), (''all_fields_exist'', ''PASS''),
                    (''no_duplicates'', ''PASS''), (''single_source'', ''FAIL'')],
        warnings = map duplicate_warning (snd (dedupe_loop sel [] {} [])),
        error = Some (error_MULTI_SOURCE_NOT_ALLOWED
                  (fields_by_source f (rev (remdups (rev sel)))))\<rparr>)"
proof -
  obtain D U where du: "dedupe_loop sel [] {} [] = (D, U)" by (cases "dedupe_loop sel [] {} []")
  then have D: "D = rev (remdups (rev sel))" by (rule dedupe_loop_spec(1))
  have g: "group_loop f D [] = Inr (fields_by_source f D)"
    unfolding D using group_loop_deduped[OF assms(3)] assms(4) by simp
  have c: "length (fields_by_source f D) \<noteq> 1" using assms(4) unfolding D by simp
  have i: "filter (\<lambda>fid. \<not> FIELD_ID_RE_match fid) sel = []"
    using assms(2) by (simp add: invalid_ids_of_def)
  have u: "filter (\<lambda>fid. \<not> dict_contains f fid) sel = []"
    using assms(3) by (simp add: unknown_of_def)
  have l: "length sel \<noteq> 0" using assms(1) by simp
  have len1: "length [(t, fs)] = 1" for t :: string and fs :: "string list" by simp
  show ?thesis
    unfolding D[symmetric] validate_v1_def
    apply (simp only: i u l du g c len1 Let_def if_False if_True split_conv sum.case
        not_False_eq_True not_True_eq_False simp_thms first_key_def list.case)
    apply (simp only: set_control_def append_warnings_def ValidationResult_init_def)
    apply simp
    apply (simp add: finalize_def)
    done
qed

lemma validate_v1_bad_source:
  assumes "sel \<noteq> []" and "invalid_ids_of sel = []" and "unknown_of f sel = []"
    and "fields_by_source f (rev (remdups (rev sel))) = [(t, fs)]"
    and "\<not> SOURCE_RE_match t"
  shows "validate_v1 f sel mv now =
     Inr (rev (remdups (rev sel)),
       \<lparr>metaquery_version = mv, schema_version = 1, timestamp = now,
        decision = ''BLOCK'', status = ''ERROR'', version = ''V1'', source = None,
        fields_selected = sel,
        controls = [(''non_empty_selection'', ''PASS''), (''all_fields_exist'', ''PASS''),
                    (''no_duplicates'', ''PASS''), (''single_source'', ''PASS''),
                    (''valid_source_name'', ''FAIL'')],
        warnings = map duplicate_warning (snd (dedupe_loop sel [] {} [])),
        error = Some (error_INVALID_SOURCE_NAME t)\<rparr>)"
proof -
  obtain D U where du: "dedupe_loop sel [] {} [] = (D, U)" by (cases "dedupe_loop sel [] {} []")
  then have D: "D = rev (remdups (rev sel))" by (rule dedupe_loop_spec(1))
  have g: "group_loop f D [] = Inr [(t, fs)]"
    unfolding D using group_loop_deduped[OF assms(3)] assms(4) by simp
  have c: "\<not> SOURCE_RE_match t" using assms(4,5) unfolding D by simp_all
  have i: "filter (\<lambda>fid. \<not> FIELD_ID_RE_match fid) sel = []"
    using assms(2) by (simp add: invalid_ids_of_def)
  have u: "filter (\<lambda>fid. \<not> dict_contains f fid) sel = []"
    using assms(3) by (simp add: unknown_of_def)
  have l: "length sel \<noteq> 0" using assms(1) by simp
  have len1: "length [(t, fs)] = 1" for t :: string and fs :: "string list" by simp
  show ?thesis
    unfolding D[symmetric] validate_v1_def
    apply (simp only: i u l du g c len1 Let_def if_False if_True split_conv sum.case
        not_False_eq_True not_True_eq_False simp_thms first_key_def list.case)
    apply (simp only: set_control_def append_warnings_def ValidationResult_init_def)
    apply simp
    apply (simp add: finalize_def)
    done
qed

lemma validate_v1_allow:
  assumes "sel \<noteq> []" and "invalid_ids_of sel = []" and "unknown_of f sel = []"
    and "fields_by_source f (rev (remdups (rev sel))) = [(t, fs)]"
    and "SOURCE_RE_match t"
  shows "validate_v1 f sel mv now =
     Inr (rev (remdups (rev sel)),
       \<lparr>metaquery_version = mv, schema_version = 1, timestamp = now,
        decision = ''ALLOW'', status = ''OK'', version = ''V1'', source = Some t,
        fields_selected = rev (remdups (rev sel)),
        controls = [(''non_empty_selection'', ''PASS''), (''all_fields_exist'', ''PASS''),
                    (''no_duplicates'', ''PASS''), (''single_source'', ''PASS''),
                    (''valid_source_name'', ''PASS'')],
        warnings = map duplicate_warning (snd (dedupe_loop sel [] {} [])),
        error = None\<rparr>)"
proof -
  obtain D U where du: "dedupe_loop sel [] {} [] = (D, U)" by (cases "dedupe_loop sel [] {} []")
  then have D: "D = rev (remdups (rev sel))" by (rule dedupe_loop_spec(1))
  have g: "group_loop f D [] = Inr [(t, fs)]"
    unfolding D using group_loop_deduped[OF assms(3)] assms(4) by simp
  have c: "SOURCE_RE_match t" using assms(4,5) unfolding D by simp_all
  have i: "filter (\<lambda>fid. \<not> FIELD_ID_RE_match fid) sel = []"
    using assms(2) by (simp add: invalid_ids_of_def)
  have u: "filter (\<lambda>fid. \<not> dict_contains f fid) sel = []"
    using assms(3) by (simp add: unknown_of_def)
  have l: "length sel \<noteq> 0" using assms(1) by simp
  have len1: "length [(t, fs)] = 1" for t :: string and fs :: "string list" by simp
  show ?thesis
    unfolding D[symmetric] validate_v1_def
    apply (simp only: i u l du g c len1 Let_def if_False if_True split_conv sum.case
        not_False_eq_True not_True_eq_False simp_thms first_key_def list.case)
    apply (simp only: set_control_def append_warnings_def ValidationResult_init_def)
    apply simp
    apply (simp add: finalize_def)
    done
qed

text \<open>The six exits cover every input.\<close>

lemma validate_v1_cases:
  obtains (empty) "sel = []"
  | (invalid) "sel \<noteq> []" "invalid_ids_of sel \<noteq> []"
  | (unknown) "sel \<noteq> []" "invalid_ids_of sel = []" "unknown_of f sel \<noteq> []"
  | (multi) "sel \<noteq> []" "invalid_ids_of sel = []" "unknown_of f sel = []"
      "2 \<le> length (fields_by_source f (rev (remdups (rev sel))))"
  | (bad_source) t fs where "sel \<noteq> []" "invalid_ids_of sel = []" "unknown_of f sel = []"
      "fields_by_source f (rev (remdups (rev sel))) = [(t, fs)]" "\<not> SOURCE_RE_match t"
  | (allow) t fs where "sel \<noteq> []" "invalid_ids_of sel = []" "unknown_of f sel = []"
      "fields_by_source f (rev (remdups (rev sel))) = [(t, fs)]" "SOURCE_RE_match t"
proof -
  consider "sel = []" | "sel \<noteq> []" "invalid_ids_of sel \<noteq> []"
    | "sel \<noteq> []" "invalid_ids_of sel = []" "unknown_of f sel \<noteq> []"
    | "sel \<noteq> []" "invalid_ids_of sel = []" "unknown_of f sel = []" by blast
  then show thesis
  proof cases
    case 4
    let ?S = "fields_by_source f (rev (remdups (rev sel)))"
    have ne: "?S \<noteq> []" using 4(1,3) by (rule fields_by_source_nonempty)
    show ?thesis
    proof (cases "length ?S = 1")
      case True
      then obtain t fs where S: "?S = [(t, fs)]"
        by (cases ?S) (auto simp: length_Suc_conv)
      then show ?thesis using 4 allow bad_source by blast
    next
      case False
      with ne have "2 \<le> length ?S" by (cases ?S) (auto simp: Suc_le_eq)
      then show ?thesis using 4 multi by blast
    qed
  qed (use empty invalid unknown in blast)+
qed

section \<open>Runs on concrete inputs\<close>

lemma regex_examples:
  "FIELD_ID_RE_match ''model_id''" "FIELD_ID_RE_match ''run_date''" "FIELD_ID_RE_match ''pd''"
  "FIELD_ID_RE_match ''customer_age''" "FIELD_ID_RE_match ''a''"
  "SOURCE_RE_match ''MODELS''" "SOURCE_RE_match ''CUSTOMERS''" "\<not> SOURCE_RE_match ''models''"
  by (simp_all add: FIELD_ID_RE_match_def SOURCE_RE_match_def class_plus_match_def
      before_final_newline_def is_upper_def is_lower_def is_digit_def)

lemma run_allow_dup:
  "validate_v1 test_fields [''model_id'', ''model_id'', ''run_date''] mv now =
     Inr ([''model_id'', ''run_date''],
       \<lparr>metaquery_version = mv, schema_version = 1, timestamp = now,
        decision = ''ALLOW'', status = ''OK'', version = ''V1'', source = Some ''MODELS'',
        fields_selected = [''model_id'', ''run_date''],
        controls = [(''non_empty_selection'', ''PASS''), (''all_fields_exist'', ''PASS''),
                    (''no_duplicates'', ''PASS''), (''single_source'', ''PASS''),
                    (''valid_source_name'', ''PASS'')],
        warnings = [duplicate_warning (''model_id'', 2)],
        error = None\<rparr>)"
proof -
  have fbs: "fields_by_source test_fields (rev (remdups (rev [''model_id'', ''model_id'', ''run_date''])))
      = [(''MODELS'', [''model_id'', ''run_date''])]"
    by (simp add: fields_by_source_def datatable_ids_def List.map_filter_def source_of_def
        test_fields_def)
  have "validate_v1 test_fields [''model_id'', ''model_id'', ''run_date''] mv now =
     Inr (rev (remdups (rev [''model_id'', ''model_id'', ''run_date''])),
       \<lparr>metaquery_version = mv, schema_version = 1, timestamp = now,
        decision = ''ALLOW'', status = ''OK'', version = ''V1'', source = Some ''MODELS'',
        fields_selected = rev (remdups (rev [''model_id'', ''model_id'', ''run_date''])),
        controls = [(''non_empty_selection'', ''PASS''), (''all_fields_exist'', ''PASS''),
                    (''no_duplicates'', ''PASS''), (''single_source'', ''PASS''),
                    (''valid_source_name'', ''PASS'')],
        warnings = map duplicate_warning (snd (dedupe_loop [''model_id'', ''model_id'', ''run_date''] [] {} [])),
        error = None\<rparr>)"
    by (rule validate_v1_allow[OF _ _ _ fbs])
       (simp_all add: invalid_ids_of_def unknown_of_def dict_contains_def test_fields_def
          regex_examples)
  then show ?thesis by (simp add: dict_get_def)
qed


lemma run_allow:
  "validate_v1 test_fields [''model_id'', ''pd''] mv now =
     Inr ([''model_id'', ''pd''],
       \<lparr>metaquery_version = mv, schema_version = 1, timestamp = now,
        decision = ''ALLOW'', status = ''OK'', version = ''V1'', source = Some ''MODELS'',
        fields_selected = [''model_id'', ''pd''],
        controls = [(''non_empty_selection'', ''PASS''), (''all_fields_exist'', ''PASS''),
                    (''no_duplicates'', ''PASS''), (''single_source'', ''PASS''),
                    (''valid_source_name'', ''PASS'')],
        warnings = [], error = None\<rparr>)"
proof -
  have fbs: "fields_by_source test_fields (rev (remdups (rev [''model_id'', ''pd''])))
      = [(''MODELS'', [''model_id'', ''pd''])]"
    by (simp add: fields_by_source_def datatable_ids_def List.map_filter_def source_of_def
        test_fields_def)
  have "validate_v1 test_fields [''model_id'', ''pd''] mv now =
     Inr (rev (remdups (rev [''model_id'', ''pd''])),
       \<lparr>metaquery_version = mv, schema_version = 1, timestamp = now,
        decision = ''ALLOW'', status = ''OK'', version = ''V1'', source = Some ''MODELS'',
        fields_selected = rev (remdups (rev [''model_id'', ''pd''])),
        controls = [(''non_empty_selection'', ''PASS''), (''all_fields_exist'', ''PASS''),
                    (''no_duplicates'', ''PASS''), (''single_source'', ''PASS''),
                    (''valid_source_name'', ''PASS'')],
        warnings = map duplicate_warning (snd (dedupe_loop [''model_id'', ''pd''] [] {} [])),
        error = None\<rparr>)"
    by (rule validate_v1_allow[OF _ _ _ fbs])
       (simp_all add: invalid_ids_of_def unknown_of_def dict_contains_def test_fields_def
          regex_examples)
  then show ?thesis by simp
qed

lemma run_multi:
  "validate_v1 test_fields [''model_id'', ''customer_age''] mv now =
     Inr ([''model_id'', ''customer_age''],
       \<lparr>metaquery_version = mv, schema_version = 1, timestamp = now,
        decision = ''BLOCK'', status = ''ERROR'', version = ''V1'', source = None,
        fields_selected = [''model_id'', ''customer_age''],
        controls = [(''non_empty_selection'', ''PASS''), (''all_fields_exist'', ''PASS''),
                    (''no_duplicates'', ''PASS''), (''single_source'', ''FAIL'')],
        warnings = [],
        error = Some (error_MULTI_SOURCE_NOT_ALLOWED
                  [(''MODELS'', [''model_id'']), (''CUSTOMERS'', [''customer_age''])])\<rparr>)"
proof -
  have fbs: "fields_by_source test_fields (rev (remdups (rev [''model_id'', ''customer_age''])))
      = [(''MODELS'', [''model_id'']), (''CUSTOMERS'', [''customer_age''])]"
    by (simp add: fields_by_source_def datatable_ids_def List.map_filter_def source_of_def
        test_fields_def)
  have "validate_v1 test_fields [''model_id'', ''customer_age''] mv now =
     Inr (rev (remdups (rev [''model_id'', ''customer_age''])),
       \<lparr>metaquery_version = mv, schema_version = 1, timestamp = now,
        decision = ''BLOCK'', status = ''ERROR'', version = ''V1'', source = None,
        fields_selected = [''model_id'', ''customer_age''],
        controls = [(''non_empty_selection'', ''PASS''), (''all_fields_exist'', ''PASS''),
                    (''no_duplicates'', ''PASS''), (''single_source'', ''FAIL'')],
        warnings = map duplicate_warning (snd (dedupe_loop [''model_id'', ''customer_age''] [] {} [])),
        error = Some (error_MULTI_SOURCE_NOT_ALLOWED
           (fields_by_source test_fields (rev (remdups (rev [''model_id'', ''customer_age''])))))\<rparr>)"
  proof (rule validate_v1_multi)
    show "length (fields_by_source test_fields (rev (remdups (rev [''model_id'', ''customer_age''])))) \<noteq> 1"
      unfolding fbs by simp
  qed (simp_all add: invalid_ids_of_def unknown_of_def dict_contains_def
          test_fields_def regex_examples)
  then show ?thesis unfolding fbs by simp
qed

lemma run_bad_source:
  "validate_v1 [(''a'', \<lparr>field_id = ''a'', datatable_id = ''models'', sql_expr = ''a'', label = None\<rparr>)]
       [''a''] mv now =
     Inr ([''a''],
       \<lparr>metaquery_version = mv, schema_version = 1, timestamp = now,
        decision = ''BLOCK'', status = ''ERROR'', version = ''V1'', source = None,
        fields_selected = [''a''],
        controls = [(''non_empty_selection'', ''PASS''), (''all_fields_exist'', ''PASS''),
                    (''no_duplicates'', ''PASS''), (''single_source'', ''PASS''),
                    (''valid_source_name'', ''FAIL'')],
        warnings = [],
        error = Some (error_INVALID_SOURCE_NAME ''models'')\<rparr>)"
proof -
  let ?C = "[(''a'', \<lparr>field_id = ''a'', datatable_id = ''models'', sql_expr = ''a'', label = None\<rparr>)]"
  have fbs: "fields_by_source ?C (rev (remdups (rev [''a''])))  = [(''models'', [''a''])]"
    by (simp add: fields_by_source_def datatable_ids_def List.map_filter_def source_of_def)
  have "validate_v1 ?C [''a''] mv now =
     Inr (rev (remdups (rev [''a''])),
       \<lparr>metaquery_version = mv, schema_version = 1, timestamp = now,
        decision = ''BLOCK'', status = ''ERROR'', version = ''V1'', source = None,
        fields_selected = [''a''],
        controls = [(''non_empty_selection'', ''PASS''), (''all_fields_exist'', ''PASS''),
                    (''no_duplicates'', ''PASS''), (''single_source'', ''PASS''),
                    (''valid_source_name'', ''FAIL'')],
        warnings = map duplicate_warning (snd (dedupe_loop [''a''] [] {} [])),
        error = Some (error_INVALID_SOURCE_NAME ''models'')\<rparr>)"
    by (rule validate_v1_bad_source[OF _ _ _ fbs])
       (simp_all add: invalid_ids_of_def unknown_of_def dict_contains_def regex_examples)
  then show ?thesis by simp
qed

lemma run_multi_dup:
  "validate_v1 test_fields [''model_id'', ''customer_age'', ''model_id''] mv now =
     Inr ([''model_id'', ''customer_age''],
       \<lparr>metaquery_version = mv, schema_version = 1, timestamp = now,
        decision = ''BLOCK'', status = ''ERROR'', version = ''V1'', source = None,
        fields_selected = [''model_id'', ''customer_age'', ''model_id''],
        controls = [(''non_empty_selection'', ''PASS''), (''all_fields_exist'', ''PASS''),
                    (''no_duplicates'', ''PASS''), (''single_source'', ''FAIL'')],
        warnings = [duplicate_warning (''model_id'', 2)],
        error = Some (error_MULTI_SOURCE_NOT_ALLOWED
                  [(''MODELS'', [''model_id'']), (''CUSTOMERS'', [''customer_age''])])\<rparr>)"
proof -
  let ?sel = "[''model_id'', ''customer_age'', ''model_id'']"
  have fbs: "fields_by_source test_fields (rev (remdups (rev ?sel)))
      = [(''MODELS'', [''model_id'']), (''CUSTOMERS'', [''customer_age''])]"
    by (simp add: fields_by_source_def datatable_ids_def List.map_filter_def source_of_def
        test_fields_def)
  have "validate_v1 test_fields ?sel mv now =
     Inr (rev (remdups (rev ?sel)),
       \<lparr>metaquery_version = mv, schema_version = 1, timestamp = now,
        decision = ''BLOCK'', status = ''ERROR'', version = ''V1'', source = None,
        fields_selected = ?sel,
        controls = [(''non_empty_selection'', ''PASS''), (''all_fields_exist'', ''PASS''),
                    (''no_duplicates'', ''PASS''), (''single_source'', ''FAIL'')],
        warnings = map duplicate_warning (snd (dedupe_loop ?sel [] {} [])),
        error = Some (error_MULTI_SOURCE_NOT_ALLOWED
           (fields_by_source test_fields (rev (remdups (rev ?sel)))))\<rparr>)"
  proof (rule validate_v1_multi)
    show "length (fields_by_source test_fields (rev (remdups (rev ?sel)))) \<noteq> 1"
      unfolding fbs by simp
  qed (simp_all add: invalid_ids_of_def unknown_of_def dict_contains_def
          test_fields_def regex_examples)
  then show ?thesis unfolding fbs by (simp add: dict_get_def)
qed

section \<open>Further facts about grouping, deduplication and warnings\<close>

lemma distinct_set_singleton: "distinct xs \<Longrightarrow> set xs = {t} \<Longrightarrow> xs = [t]"
proof (cases xs)
  case Nil
  assume "set xs = {t}" with Nil show ?thesis by simp
next
  case (Cons x ys)
  assume d: "distinct xs" and s: "set xs = {t}"
  from s Cons have x: "x = t" by auto
  from d s Cons x have "set ys \<subseteq> {t}" "t \<notin> set ys" by auto
  then have "ys = []" by (cases ys) auto
  with Cons x show ?thesis by simp
qed

lemma fields_by_source_single:
  assumes "xs \<noteq> []" and "\<forall>x \<in> set xs. \<exists>fld. map_of f x = Some fld \<and> datatable_id fld = t"
  shows "fields_by_source f xs = [(t, xs)]"
proof -
  have src: "\<And>x. x \<in> set xs \<Longrightarrow> source_of f x = Some t"
    using assms(2) by (auto simp: source_of_def)
  have "set (datatable_ids f xs) = {t}"
    using assms(1) src by (cases xs) (auto simp: set_datatable_ids)
  then have K: "rev (remdups (rev (datatable_ids f xs))) = [t]"
    by (intro distinct_set_singleton) simp_all
  have F: "filter (\<lambda>fid. source_of f fid = Some t) xs = xs"
    using src by (simp add: filter_id_conv)
  show ?thesis unfolding fields_by_source_def K using F by simp
qed

lemma count_list_distinct: "distinct xs \<Longrightarrow> count_list xs x \<le> 1"
  by (induction xs) (auto simp: count_list_pos_iff[symmetric])

lemma dedupe_loop_duplicates:
  "distinct (map fst (snd (dedupe_loop sel [] {} [])))"
  "map_of (snd (dedupe_loop sel [] {} [])) fid =
     (if 1 < count_list sel fid then Some (int (count_list sel fid)) else None)"
proof -
  obtain D U where du: "dedupe_loop sel [] {} [] = (D, U)" by (cases "dedupe_loop sel [] {} []")
  show "distinct (map fst (snd (dedupe_loop sel [] {} [])))"
    using dedupe_loop_spec(2)[OF du] du by simp
  show "map_of (snd (dedupe_loop sel [] {} [])) fid =
     (if 1 < count_list sel fid then Some (int (count_list sel fid)) else None)"
    using dedupe_loop_spec(3)[OF du, of fid] du by simp
qed

lemma dedupe_loop_distinct:
  assumes "distinct sel"
  shows "snd (dedupe_loop sel [] {} []) = []"
proof -
  have "map_of (snd (dedupe_loop sel [] {} [])) fid = None" for fid
    using count_list_distinct[OF assms, of fid] by (simp add: dedupe_loop_duplicates(2))
  then have "map_of (snd (dedupe_loop sel [] {} [])) = Map.empty" by (rule ext)
  then show ?thesis by simp
qed

lemma filter_key_distinct:
  "distinct (map fst U) \<Longrightarrow>
     filter (\<lambda>p. fst p = k) U = (case map_of U k of None \<Rightarrow> [] | Some v \<Rightarrow> [(k, v)])"
proof (induction U)
  case Nil
  then show ?case by simp
next
  case (Cons p U)
  obtain k' v' where p: "p = (k', v')" by (cases p)
  show ?case
  proof (cases "k' = k")
    case True
    with Cons.prems p have "k \<notin> fst ` set U" by simp
    then have "filter (\<lambda>p. fst p = k) U = []" by (auto simp: filter_empty_conv)
    with True p show ?thesis by simp
  next
    case False
    with Cons p show ?thesis by simp
  qed
qed

lemma duplicate_warning_field_id:
  "map_of (duplicate_warning p) ''field_id'' = Some (PStr (fst p))"
  "map_of (duplicate_warning p) ''code'' = Some (PStr ''DUPLICATE_FIELDS'')"
  "map_of (duplicate_warning p) ''count'' = Some (PInt (snd p))"
  by (cases p; simp add: duplicate_warning_def)+

lemma warnings_for_field:
  "filter (\<lambda>w. map_of w ''field_id'' = Some (PStr fid))
       (map duplicate_warning (snd (dedupe_loop sel [] {} []))) =
     (if 1 < count_list sel fid then [duplicate_warning (fid, int (count_list sel fid))] else [])"
proof -
  let ?U = "snd (dedupe_loop sel [] {} [])"
  have "filter (\<lambda>w. map_of w ''field_id'' = Some (PStr fid)) (map duplicate_warning ?U)
      = map duplicate_warning (filter (\<lambda>p. fst p = fid) ?U)"
    by (simp add: filter_map comp_def duplicate_warning_field_id)
  also have "filter (\<lambda>p. fst p = fid) ?U
      = (case map_of ?U fid of None \<Rightarrow> [] | Some v \<Rightarrow> [(fid, v)])"
    by (rule filter_key_distinct) (rule dedupe_loop_duplicates(1))
  finally show ?thesis by (simp add: dedupe_loop_duplicates(2))
qed

section \<open>The trace of executed checks on each exit\<close>

lemma fst_dedupe_loop: "fst (dedupe_loop sel [] {} []) = rev (remdups (rev sel))"
proof -
  obtain D U where du: "dedupe_loop sel [] {} [] = (D, U)" by (cases "dedupe_loop sel [] {} []")
  from dedupe_loop_spec(1)[OF du] du show ?thesis by simp
qed

lemma checks_executed_empty: "checks_executed f [] = [(NonEmptySelection, False)]"
  by (simp add: checks_executed_def)

lemma checks_executed_invalid:
  "sel \<noteq> [] \<Longrightarrow> invalid_ids_of sel \<noteq> [] \<Longrightarrow>
     checks_executed f sel = [(NonEmptySelection, True), (FieldIdSyntax, False)]"
  by (simp add: checks_executed_def invalid_ids_of_def)

lemma checks_executed_unknown:
  "sel \<noteq> [] \<Longrightarrow> invalid_ids_of sel = [] \<Longrightarrow> unknown_of f sel \<noteq> [] \<Longrightarrow>
     checks_executed f sel =
       [(NonEmptySelection, True), (FieldIdSyntax, True), (FieldExistence, False)]"
  by (simp add: checks_executed_def invalid_ids_of_def unknown_of_def)

lemma checks_executed_multi:
  assumes "sel \<noteq> []" and "invalid_ids_of sel = []" and "unknown_of f sel = []"
    and "length (fields_by_source f (rev (remdups (rev sel)))) \<noteq> 1"
  shows "checks_executed f sel =
       [(NonEmptySelection, True), (FieldIdSyntax, True), (FieldExistence, True),
        (NoDuplicates, True), (SingleSource, False)]"
  using assms group_loop_deduped[OF assms(3)]
  by (simp add: checks_executed_def invalid_ids_of_def unknown_of_def fst_dedupe_loop)

lemma checks_executed_bad_source:
  assumes "sel \<noteq> []" and "invalid_ids_of sel = []" and "unknown_of f sel = []"
    and "fields_by_source f (rev (remdups (rev sel))) = [(t, fs)]"
    and "\<not> SOURCE_RE_match t"
  shows "checks_executed f sel =
       [(NonEmptySelection, True), (FieldIdSyntax, True), (FieldExistence, True),
        (NoDuplicates, True), (SingleSource, True), (ValidSourceName, False)]"
  using assms group_loop_deduped[OF assms(3)]
  by (simp add: checks_executed_def invalid_ids_of_def unknown_of_def fst_dedupe_loop first_key_def)

lemma checks_executed_allow:
  assumes "sel \<noteq> []" and "invalid_ids_of sel = []" and "unknown_of f sel = []"
    and "fields_by_source f (rev (remdups (rev sel))) = [(t, fs)]"
    and "SOURCE_RE_match t"
  shows "checks_executed f sel =
       [(NonEmptySelection, True), (FieldIdSyntax, True), (FieldExistence, True),
        (NoDuplicates, True), (SingleSource, True), (ValidSourceName, True)]"
  using assms group_loop_deduped[OF assms(3)]
  by (simp add: checks_executed_def invalid_ids_of_def unknown_of_def fst_dedupe_loop first_key_def)

lemma checks_executed_test_allow:
  "checks_executed test_fields [''model_id'', ''pd''] =
       [(NonEmptySelection, True), (FieldIdSyntax, True), (FieldExistence, True),
        (NoDuplicates, True), (SingleSource, True), (ValidSourceName, True)]"
proof -
  have fbs: "fields_by_source test_fields (rev (remdups (rev [''model_id'', ''pd''])))
      = [(''MODELS'', [''model_id'', ''pd''])]"
    by (simp add: fields_by_source_def datatable_ids_def List.map_filter_def source_of_def
        test_fields_def)
  show ?thesis
    by (rule checks_executed_allow[OF _ _ _ fbs])
       (simp_all add: invalid_ids_of_def unknown_of_def dict_contains_def test_fields_def
          regex_examples)
qed

lemma set_datatable_ids_dedup:
  "set (datatable_ids f (rev (remdups (rev sel)))) = set (datatable_ids f sel)"
  by (simp add: set_datatable_ids)

lemma check_holds_syntax: "check_holds f sel FieldIdSyntax = (invalid_ids_of sel = [])"
  by (simp add: invalid_ids_of_Nil_iff list_all_iff)

lemma check_holds_existence: "check_holds f sel FieldExistence = (unknown_of f sel = [])"
  by (simp add: unknown_of_Nil_iff list_all_iff)

lemma check_holds_single:
  "check_holds f sel SingleSource = (length (fields_by_source f (rev (remdups (rev sel)))) = 1)"
  by (simp add: length_fields_by_source length_remdups_card_conv set_datatable_ids_dedup)

lemma check_holds_valid:
  assumes "fields_by_source f (rev (remdups (rev sel))) = [(t, fs)]"
  shows "check_holds f sel ValidSourceName = SOURCE_RE_match t"
proof -
  have "map fst (fields_by_source f (rev (remdups (rev sel)))) = [t]" using assms by simp
  then have "rev (remdups (rev (datatable_ids f (rev (remdups (rev sel)))))) = [t]"
    by (simp add: fields_by_source_def comp_def)
  then have "set (rev (remdups (rev (datatable_ids f (rev (remdups (rev sel))))))) = {t}"
    by simp
  then have "set (datatable_ids f sel) = {t}" by (simp add: set_datatable_ids_dedup)
  then show ?thesis by (simp add: list_all_iff)
qed

section \<open>The store-level validator agrees with the validator\<close>

lemma read_list_update:
  "read_list (h[a := OList xs]) b =
     (if b = a \<and> a < length h then Some xs else read_list h b)"
  by (auto simp: read_list_def)

lemma read_list_Some_less: "read_list h a = Some xs \<Longrightarrow> a < length h \<and> h ! a = OList xs"
  by (auto simp: read_list_def split: if_splits obj.splits)

lemma read_dict_Some_less: "read_dict h a = Some d \<Longrightarrow> a < length h \<and> h ! a = ODict d"
  by (auto simp: read_dict_def split: if_splits obj.splits)

lemma read_append:
  "a < length h \<Longrightarrow> read_list (h @ ex) a = read_list h a"
  "a < length h \<Longrightarrow> read_dict (h @ ex) a = read_dict h a"
  by (simp_all add: read_list_def read_dict_def nth_append)

lemma read_list_new: "read_list (h @ [OList xs]) (length h) = Some xs"
  by (simp add: read_list_def)

lemma dedupe_loop_st_run:
  assumes "d \<noteq> s" and "read_list h s = Some sel" and "read_list h d = Some acc"
    and "i \<le> length sel"
  shows "dedupe_loop_st h s d i seen dups =
     Inr (h[d := OList (fst (dedupe_loop (drop i sel) acc seen dups))],
          snd (dedupe_loop (drop i sel) acc seen dups))"
  using assms
proof (induction "length sel - i" arbitrary: h i acc seen dups)
  case 0
  then have i: "i = length sel" by simp
  from "0.prems"(3) have "h[d := OList acc] = h"
    using read_list_Some_less[of h d acc] by (simp add: list_update_same_conv)
  with "0.prems"(2) i show ?case
    by (subst dedupe_loop_st.simps) simp
next
  case (Suc n)
  then have i: "i < length sel" by simp
  have dx: "drop i sel = sel ! i # drop (Suc i) sel" using i by (simp add: Cons_nth_drop_Suc)
  show ?case
  proof (cases "sel ! i \<in> seen")
    case True
    have "dedupe_loop_st h s d (Suc i) seen (dict_set dups (sel ! i) (dict_get dups (sel ! i) 1 + 1))
        = Inr (h[d := OList (fst (dedupe_loop (drop (Suc i) sel) acc seen
                  (dict_set dups (sel ! i) (dict_get dups (sel ! i) 1 + 1))))],
             snd (dedupe_loop (drop (Suc i) sel) acc seen
                  (dict_set dups (sel ! i) (dict_get dups (sel ! i) 1 + 1))))"
      using Suc.hyps(2) Suc.prems i by (intro Suc.hyps(1)) simp_all
    with True i Suc.prems(2) show ?thesis
      by (subst dedupe_loop_st.simps) (simp add: dx)
  next
    case False
    let ?h = "h[d := OList (acc @ [sel ! i])]"
    have ap: "list_append h d (sel ! i) = Some ?h"
      using Suc.prems(3) by (simp add: list_append_def)
    have dl: "d < length h" using read_list_Some_less[OF Suc.prems(3)] by simp
    have rs: "read_list ?h s = Some sel"
      using Suc.prems(1,2) by (simp add: read_list_update)
    have rd: "read_list ?h d = Some (acc @ [sel ! i])"
      using dl by (simp add: read_list_update)
    have "dedupe_loop_st ?h s d (Suc i) (insert (sel ! i) seen) dups
        = Inr (?h[d := OList (fst (dedupe_loop (drop (Suc i) sel) (acc @ [sel ! i])
                  (insert (sel ! i) seen) dups))],
             snd (dedupe_loop (drop (Suc i) sel) (acc @ [sel ! i]) (insert (sel ! i) seen) dups))"
      using Suc.hyps(2) Suc.prems(1) rs rd i by (intro Suc.hyps(1)) simp_all
    with False i Suc.prems(2) ap show ?thesis
      by (subst dedupe_loop_st.simps) (simp add: dx)
  qed
qed

lemma validate_v1_clock:
  "\<exists>d a. validate_v1 f sel mv now = Inr (d, a) \<and> timestamp a = now
     \<and> validate_v1 f sel mv now' = Inr (d, a\<lparr>timestamp := now'\<rparr>)"
proof (cases rule: validate_v1_cases[where sel=sel and f=f])
  case empty
  show ?thesis unfolding empty validate_v1_empty by simp
next
  case invalid
  show ?thesis unfolding validate_v1_invalid[OF invalid] by simp
next
  case unknown
  show ?thesis unfolding validate_v1_unknown[OF unknown] by simp
next
  case multi
  then have ne: "length (fields_by_source f (rev (remdups (rev sel)))) \<noteq> 1" by simp
  show ?thesis unfolding validate_v1_multi[OF multi(1,2,3) ne] by simp
next
  case (bad_source t fs)
  show ?thesis unfolding validate_v1_bad_source[OF bad_source] by simp
next
  case (allow t fs)
  show ?thesis unfolding validate_v1_allow[OF allow] by simp
qed

lemma validate_v1_st_early:
  assumes "read_dict (heap w) c = Some F" and "read_list (heap w) s = Some sel"
    and "sel = [] \<or> invalid_ids_of sel \<noteq> [] \<or> unknown_of F sel \<noteq> []"
  shows "\<exists>a. validate_v1 F sel mv (clock w) = Inr (sel, a)
     \<and> validate_v1_st w c s mv = Inr ((s, a), w)"
proof -
  consider "sel = []" | "sel \<noteq> []" "invalid_ids_of sel \<noteq> []"
    | "sel \<noteq> []" "invalid_ids_of sel = []" "unknown_of F sel \<noteq> []"
    using assms(3) by blast
  then show ?thesis
  proof cases
    case 1
    have l: "length sel = 0" using 1 by simp
    have "validate_v1_st w c s mv = Inr ((s, finalize
        ((set_control (ValidationResult_init mv (clock w)\<lparr>fields_selected := sel\<rparr>)
            ''non_empty_selection'' ''FAIL'')\<lparr>error := Some error_EMPTY_SELECTION\<rparr>)), w)"
      unfolding validate_v1_st_def
      by (simp only: assms(1,2) l option.case Let_def if_True simp_thms)
    then show ?thesis unfolding 1 validate_v1_empty
      by (simp add: set_control_def ValidationResult_init_def finalize_def)
  next
    case 2
    have l: "length sel \<noteq> 0" using 2 by simp
    have i: "filter (\<lambda>fid. \<not> FIELD_ID_RE_match fid) sel \<noteq> []"
      using 2 by (simp add: invalid_ids_of_def)
    have "validate_v1_st w c s mv = Inr ((s, finalize
        ((set_control (set_control (ValidationResult_init mv (clock w)\<lparr>fields_selected := sel\<rparr>)
            ''non_empty_selection'' ''PASS'') ''all_fields_exist'' ''FAIL'')
          \<lparr>error := Some (error_INVALID_FIELD_ID (filter (\<lambda>fid. \<not> FIELD_ID_RE_match fid) sel))\<rparr>)), w)"
      unfolding validate_v1_st_def
      by (simp only: assms(1,2) l i option.case Let_def if_True if_False not_False_eq_True
          simp_thms)
    then show ?thesis unfolding validate_v1_invalid[OF 2]
      by (simp add: set_control_def ValidationResult_init_def finalize_def invalid_ids_of_def)
  next
    case 3
    have l: "length sel \<noteq> 0" using 3 by simp
    have i: "filter (\<lambda>fid. \<not> FIELD_ID_RE_match fid) sel = []"
      using 3 by (simp add: invalid_ids_of_def)
    have u: "filter (\<lambda>fid. \<not> dict_contains F fid) sel \<noteq> []"
      using 3 by (simp add: unknown_of_def)
    have "validate_v1_st w c s mv = Inr ((s, finalize
        ((set_control (set_control (ValidationResult_init mv (clock w)\<lparr>fields_selected := sel\<rparr>)
            ''non_empty_selection'' ''PASS'') ''all_fields_exist'' ''FAIL'')
          \<lparr>error := Some (error_FIELD_NOT_FOUND (filter (\<lambda>fid. \<not> dict_contains F fid) sel) F)\<rparr>)), w)"
      unfolding validate_v1_st_def
      by (simp only: assms(1,2) l i u option.case Let_def if_True if_False not_False_eq_True
          simp_thms)
    then show ?thesis unfolding validate_v1_unknown[OF 3]
      by (simp add: set_control_def ValidationResult_init_def finalize_def unknown_of_def)
  qed
qed

lemma validate_v1_st_late:
  assumes "read_dict (heap w) c = Some F" and "read_list (heap w) s = Some sel"
    and "sel \<noteq> []" and "invalid_ids_of sel = []" and "unknown_of F sel = []"
  shows "\<exists>a. validate_v1 F sel mv (clock w) = Inr (rev (remdups (rev sel)), a)
     \<and> validate_v1_st w c s mv
         = Inr ((length (heap w), a), w\<lparr>heap := heap w @ [OList (rev (remdups (rev sel)))]\<rparr>)"
proof -
  obtain D U where du: "dedupe_loop sel [] {} [] = (D, U)" by (cases "dedupe_loop sel [] {} []")
  then have D: "D = rev (remdups (rev sel))" by (rule dedupe_loop_spec(1))
  have sl: "s < length (heap w)" and cl: "c < length (heap w)"
    using read_list_Some_less[OF assms(2)] read_dict_Some_less[OF assms(1)] by simp_all
  have al: "alloc (heap w) (OList []) = (length (heap w), heap w @ [OList []])"
    by (simp add: alloc_def)
  have "dedupe_loop_st (heap w @ [OList []]) s (length (heap w)) 0 {} [] =
      Inr ((heap w @ [OList []])[length (heap w) := OList (fst (dedupe_loop (drop 0 sel) [] {} []))],
           snd (dedupe_loop (drop 0 sel) [] {} []))"
    using sl assms(2) by (intro dedupe_loop_st_run) (simp_all add: read_append read_list_new)
  then have dl: "dedupe_loop_st (heap w @ [OList []]) s (length (heap w)) 0 {} [] =
      Inr (heap w @ [OList D], U)"
    using du by simp
  have r2: "read_list (heap w @ [OList D]) (length (heap w)) = Some D" by (rule read_list_new)
  have d2: "read_dict (heap w @ [OList D]) c = Some F" using cl assms(1) by (simp add: read_append)
  have g: "group_loop F D [] = Inr (fields_by_source F D)"
    unfolding D using assms(5) by (rule group_loop_deduped)
  have i: "filter (\<lambda>fid. \<not> FIELD_ID_RE_match fid) sel = []"
    using assms(4) by (simp add: invalid_ids_of_def)
  have u: "filter (\<lambda>fid. \<not> dict_contains F fid) sel = []"
    using assms(5) by (simp add: unknown_of_def)
  have l: "length sel \<noteq> 0" using assms(3) by simp
  have len1: "length [(t, fs)] = 1" for t :: string and fs :: "string list" by simp
  let ?S = "fields_by_source F D"
  have ne: "?S \<noteq> []" unfolding D using assms(3,5) by (rule fields_by_source_nonempty)
  consider (multi) "length ?S \<noteq> 1"
    | (bad) t fs where "?S = [(t, fs)]" "\<not> SOURCE_RE_match t"
    | (ok) t fs where "?S = [(t, fs)]" "SOURCE_RE_match t"
  proof (cases "length ?S = 1")
    case True
    then obtain t fs where "?S = [(t, fs)]" by (cases ?S) (auto simp: length_Suc_conv)
    then show ?thesis using bad ok by blast
  next
    case False
    then show ?thesis using multi by blast
  qed
  then show ?thesis
  proof cases
    case multi
    have st: "validate_v1_st w c s mv = Inr ((length (heap w), finalize
        ((set_control (if U \<noteq> [] then append_warnings (set_control (set_control (set_control
              (ValidationResult_init mv (clock w)\<lparr>fields_selected := sel\<rparr>)
              ''non_empty_selection'' ''PASS'') ''all_fields_exist'' ''PASS'')
              ''no_duplicates'' ''PASS'') (map duplicate_warning U)
            else set_control (set_control (set_control
              (ValidationResult_init mv (clock w)\<lparr>fields_selected := sel\<rparr>)
              ''non_empty_selection'' ''PASS'') ''all_fields_exist'' ''PASS'')
              ''no_duplicates'' ''PASS'') ''single_source'' ''FAIL'')
          \<lparr>error := Some (error_MULTI_SOURCE_NOT_ALLOWED ?S)\<rparr>)),
        w\<lparr>heap := heap w @ [OList D]\<rparr>)"
      unfolding validate_v1_st_def
      by (simp only: assms(1,2) l i u al dl r2 d2 g multi option.case Let_def if_True if_False
          not_False_eq_True split_conv sum.case simp_thms)
    have ne1: "length (fields_by_source F (rev (remdups (rev sel)))) \<noteq> 1"
      using multi unfolding D .
    show ?thesis unfolding validate_v1_multi[OF assms(3,4,5) ne1] st
      unfolding D[symmetric] using du
      apply (simp only: set_control_def append_warnings_def ValidationResult_init_def)
      apply simp
      apply (simp add: finalize_def)
      done
  next
    case (bad t fs)
    have st: "validate_v1_st w c s mv = Inr ((length (heap w), finalize
        ((set_control (set_control (if U \<noteq> [] then append_warnings (set_control (set_control (set_control
              (ValidationResult_init mv (clock w)\<lparr>fields_selected := sel\<rparr>)
              ''non_empty_selection'' ''PASS'') ''all_fields_exist'' ''PASS'')
              ''no_duplicates'' ''PASS'') (map duplicate_warning U)
            else set_control (set_control (set_control
              (ValidationResult_init mv (clock w)\<lparr>fields_selected := sel\<rparr>)
              ''non_empty_selection'' ''PASS'') ''all_fields_exist'' ''PASS'')
              ''no_duplicates'' ''PASS'') ''single_source'' ''PASS'') ''valid_source_name'' ''FAIL'')
          \<lparr>error := Some (error_INVALID_SOURCE_NAME t)\<rparr>)),
        w\<lparr>heap := heap w @ [OList D]\<rparr>)"
      unfolding validate_v1_st_def
      by (simp only: assms(1,2) l i u al dl r2 d2 g bad len1 option.case Let_def if_True if_False
          not_False_eq_True not_True_eq_False split_conv sum.case simp_thms first_key_def
          list.case)
    have s1: "fields_by_source F (rev (remdups (rev sel))) = [(t, fs)]"
      using bad(1) unfolding D .
    show ?thesis unfolding validate_v1_bad_source[OF assms(3,4,5) s1 bad(2)] st
      unfolding D[symmetric] using du
      apply (simp only: set_control_def append_warnings_def ValidationResult_init_def)
      apply simp
      apply (simp add: finalize_def)
      done
  next
    case (ok t fs)
    have st: "validate_v1_st w c s mv = Inr ((length (heap w), finalize
        ((set_control (set_control (if U \<noteq> [] then append_warnings (set_control (set_control (set_control
              (ValidationResult_init mv (clock w)\<lparr>fields_selected := sel\<rparr>)
              ''non_empty_selection'' ''PASS'') ''all_fields_exist'' ''PASS'')
              ''no_duplicates'' ''PASS'') (map duplicate_warning U)
            else set_control (set_control (set_control
              (ValidationResult_init mv (clock w)\<lparr>fields_selected := sel\<rparr>)
              ''non_empty_selection'' ''PASS'') ''all_fields_exist'' ''PASS'')
              ''no_duplicates'' ''PASS'') ''single_source'' ''PASS'') ''valid_source_name'' ''PASS'')
          \<lparr>source := Some t, decision := ''ALLOW'', status := ''OK'', fields_selected := D\<rparr>)),
        w\<lparr>heap := heap w @ [OList D]\<rparr>)"
      unfolding validate_v1_st_def
      by (simp only: assms(1,2) l i u al dl r2 d2 g ok len1 option.case Let_def if_True if_False
          not_False_eq_True not_True_eq_False split_conv sum.case simp_thms first_key_def
          list.case)
    have s1: "fields_by_source F (rev (remdups (rev sel))) = [(t, fs)]"
      using ok(1) unfolding D .
    show ?thesis unfolding validate_v1_allow[OF assms(3,4,5) s1 ok(2)] st
      unfolding D[symmetric] using du
      apply (simp only: set_control_def append_warnings_def ValidationResult_init_def)
      apply simp
      apply (simp add: finalize_def)
      done
  qed
qed

lemma validate_v1_st_spec:
  assumes "read_dict (heap w) c = Some F" and "read_list (heap w) s = Some sel"
  shows "\<exists>r ret a ex.
       validate_v1_st w c s mv = Inr ((r, a), w\<lparr>heap := heap w @ ex\<rparr>)
     \<and> read_list (heap w @ ex) r = Some ret
     \<and> validate_v1 F sel mv (clock w) = Inr (ret, a)"
proof (cases "sel = [] \<or> invalid_ids_of sel \<noteq> [] \<or> unknown_of F sel \<noteq> []")
  case True
  from validate_v1_st_early[OF assms True, of mv] obtain a where
    a: "validate_v1 F sel mv (clock w) = Inr (sel, a)" "validate_v1_st w c s mv = Inr ((s, a), w)"
    by blast
  have "validate_v1_st w c s mv = Inr ((s, a), w\<lparr>heap := heap w @ []\<rparr>)"
    using a(2) by simp
  moreover have "read_list (heap w @ []) s = Some sel" using assms(2) by simp
  ultimately show ?thesis using a(1) by blast
next
  case False
  then have h: "sel \<noteq> []" "invalid_ids_of sel = []" "unknown_of F sel = []" by simp_all
  from validate_v1_st_late[OF assms h, of mv] obtain a where
    a: "validate_v1 F sel mv (clock w) = Inr (rev (remdups (rev sel)), a)"
       "validate_v1_st w c s mv
         = Inr ((length (heap w), a), w\<lparr>heap := heap w @ [OList (rev (remdups (rev sel)))]\<rparr>)"
    by blast
  have "read_list (heap w @ [OList (rev (remdups (rev sel)))]) (length (heap w))
      = Some (rev (remdups (rev sel)))"
    by (rule read_list_new)
  with a show ?thesis by blast
qed

section \<open>The claims\<close>

text \<open>
  Claim C6. A non-empty selection containing at least one id that does not match
  \<^verbatim>\<open>^[A-Za-z0-9_]+$\<close> is blocked with error code INVALID_FIELD_ID; the failure is recorded
  under the control key \<^verbatim>\<open>all_fields_exist\<close>, after the passing \<^verbatim>\<open>non_empty_selection\<close>
  and with no other control; \<^verbatim>\<open>invalid_field_ids\<close> is the list of the offending ids in input
  order, repetitions kept. The selection itself is the first component of the result.
\<close>

theorem C6_invalid_field_id_blocks:
  assumes "sel \<noteq> []" and "\<exists>fid \<in> set sel. \<not> FIELD_ID_RE_match fid"
  shows "\<exists>a e. validate_v1 f sel mv now = Inr (sel, a)
     \<and> decision a = ''BLOCK''
     \<and> error a = Some e
     \<and> map_of e ''code'' = Some (PStr ''INVALID_FIELD_ID'')
     \<and> map_of e ''invalid_field_ids'' = Some (PStrList (filter (\<lambda>fid. \<not> FIELD_ID_RE_match fid) sel))
     \<and> controls a = [(''non_empty_selection'', ''PASS''), (''all_fields_exist'', ''FAIL'')]"
proof -
  have inv: "invalid_ids_of sel \<noteq> []"
    using assms(2) by (auto simp: invalid_ids_of_def filter_empty_conv)
  show ?thesis
    unfolding validate_v1_invalid[OF assms(1) inv]
    by (simp add: error_INVALID_FIELD_ID_def invalid_ids_of_def)
qed

text \<open>Claim C6 at a selection with a malformed id that occurs twice.\<close>

theorem C6_invalid_field_id_blocks_witness:
  "\<exists>a e. validate_v1 [] [''model_id'', ''a-b'', ''pd'', ''a-b''] ''0.1.0'' ''2024-01-01T00:00:00Z''
        = Inr ([''model_id'', ''a-b'', ''pd'', ''a-b''], a)
     \<and> decision a = ''BLOCK''
     \<and> error a = Some e
     \<and> map_of e ''code'' = Some (PStr ''INVALID_FIELD_ID'')
     \<and> map_of e ''invalid_field_ids'' = Some (PStrList [''a-b'', ''a-b''])
     \<and> controls a = [(''non_empty_selection'', ''PASS''), (''all_fields_exist'', ''FAIL'')]"
proof -
  have m: "\<not> FIELD_ID_RE_match ''a-b''" "FIELD_ID_RE_match ''model_id''" "FIELD_ID_RE_match ''pd''"
    by (simp_all add: FIELD_ID_RE_match_def class_plus_match_def before_final_newline_def
        is_upper_def is_lower_def is_digit_def)
  have h1: "[''model_id'', ''a-b'', ''pd'', ''a-b''] \<noteq> []" by simp
  have h2: "\<exists>fid \<in> set [''model_id'', ''a-b'', ''pd'', ''a-b'']. \<not> FIELD_ID_RE_match fid"
    using m by simp
  show ?thesis
    using C6_invalid_field_id_blocks[OF h1 h2, of "[]" "''0.1.0''" "''2024-01-01T00:00:00Z''"] m
    by simp
qed

text \<open>
  Claim C8. For every catalog and selection the call returns a pair whose audit record has
  decision ALLOW exactly when its status is OK, and otherwise decision BLOCK with status
  ERROR; the error object is present exactly when the decision is BLOCK; and the source
  is set only when the decision is ALLOW.
\<close>

theorem C8_audit_consistent:
  "\<exists>d a. validate_v1 f sel mv now = Inr (d, a)
     \<and> ((decision a = ''ALLOW'') = (status a = ''OK''))
     \<and> (decision a = ''ALLOW'' \<or> (decision a = ''BLOCK'' \<and> status a = ''ERROR''))
     \<and> ((error a \<noteq> None) = (decision a = ''BLOCK''))
     \<and> (source a \<noteq> None \<longrightarrow> decision a = ''ALLOW'')"
proof (cases rule: validate_v1_cases[where sel=sel and f=f])
  case empty
  show ?thesis unfolding empty validate_v1_empty by simp
next
  case invalid
  show ?thesis unfolding validate_v1_invalid[OF invalid] by simp
next
  case unknown
  show ?thesis unfolding validate_v1_unknown[OF unknown] by simp
next
  case multi
  then have "length (fields_by_source f (rev (remdups (rev sel)))) \<noteq> 1" by simp
  from validate_v1_multi[OF multi(1,2,3) this] show ?thesis by simp
next
  case (bad_source t fs)
  show ?thesis unfolding validate_v1_bad_source[OF bad_source] by simp
next
  case (allow t fs)
  show ?thesis unfolding validate_v1_allow[OF allow] by simp
qed

text \<open>Claim C8 at the passing selection of the test suite, where the source is set.\<close>

theorem C8_audit_consistent_witness:
  "\<exists>d a. validate_v1 test_fields [''model_id'', ''pd''] ''0.1.0'' ''2024-01-01T00:00:00Z'' = Inr (d, a)
     \<and> source a = Some ''MODELS'' \<and> decision a = ''ALLOW'' \<and> status a = ''OK''
     \<and> error a = None"
  using C8_audit_consistent[of test_fields "[''model_id'', ''pd'']" "''0.1.0''" "''2024-01-01T00:00:00Z''"]
  by (auto simp: run_allow)

text \<open>
  Claim C10. When the decision is BLOCK, the audit's \<^verbatim>\<open>fields_selected\<close> is the raw input
  selection, and the first component of the returned pair depends on the error code: for
  EMPTY_SELECTION, INVALID_FIELD_ID and FIELD_NOT_FOUND it is the selection as given,
  repetitions included; for MULTI_SOURCE_NOT_ALLOWED and INVALID_SOURCE_NAME it is the
  selection with repetitions removed, first occurrences kept in order.
\<close>

theorem C10_first_component_on_block:
  "\<exists>d a. validate_v1 f sel mv now = Inr (d, a)
     \<and> (decision a = ''BLOCK'' \<longrightarrow>
          fields_selected a = sel
        \<and> (\<exists>e c. error a = Some e \<and> map_of e ''code'' = Some (PStr c)
             \<and> ((c = ''EMPTY_SELECTION'' \<or> c = ''INVALID_FIELD_ID'' \<or> c = ''FIELD_NOT_FOUND'')
                    \<and> d = sel
                \<or> (c = ''MULTI_SOURCE_NOT_ALLOWED'' \<or> c = ''INVALID_SOURCE_NAME'')
                    \<and> d = rev (remdups (rev sel)))))"
proof (cases rule: validate_v1_cases[where sel=sel and f=f])
  case empty
  show ?thesis unfolding empty validate_v1_empty by (simp add: error_EMPTY_SELECTION_def)
next
  case invalid
  show ?thesis unfolding validate_v1_invalid[OF invalid] by (simp add: error_INVALID_FIELD_ID_def)
next
  case unknown
  show ?thesis unfolding validate_v1_unknown[OF unknown] by (simp add: error_FIELD_NOT_FOUND_def)
next
  case multi
  then have "length (fields_by_source f (rev (remdups (rev sel)))) \<noteq> 1" by simp
  from validate_v1_multi[OF multi(1,2,3) this] show ?thesis
    by (simp add: error_MULTI_SOURCE_NOT_ALLOWED_def)
next
  case (bad_source t fs)
  show ?thesis unfolding validate_v1_bad_source[OF bad_source]
    by (simp add: error_INVALID_SOURCE_NAME_def)
next
  case (allow t fs)
  show ?thesis unfolding validate_v1_allow[OF allow] by simp
qed

text \<open>
  Claim C10 at a selection with a repeated id and two source tables: the first component
  is deduplicated, \<^verbatim>\<open>fields_selected\<close> is not.
\<close>

theorem C10_first_component_on_block_witness:
  "\<exists>a e. validate_v1 test_fields [''model_id'', ''customer_age'', ''model_id''] ''0.1.0'' ''2024-01-01T00:00:00Z''
        = Inr ([''model_id'', ''customer_age''], a)
     \<and> decision a = ''BLOCK''
     \<and> fields_selected a = [''model_id'', ''customer_age'', ''model_id'']
     \<and> error a = Some e \<and> map_of e ''code'' = Some (PStr ''MULTI_SOURCE_NOT_ALLOWED'')"
  using C10_first_component_on_block[of test_fields "[''model_id'', ''customer_age'', ''model_id'']"
      "''0.1.0''" "''2024-01-01T00:00:00Z''"]
  unfolding run_multi_dup
  by (simp add: error_MULTI_SOURCE_NOT_ALLOWED_def)

text \<open>
  Claim C1, as stated, at a catalog whose only field has the source table \<^verbatim>\<open>models\<close>:
  the selection is non-empty, its id matches \<^verbatim>\<open>^[A-Za-z0-9_]+$\<close> and is in the catalog, and
  there is one source table, yet the decision is BLOCK with INVALID_SOURCE_NAME and no
  source is set.
\<close>

theorem C1_counterexample:
  "[''a''] \<noteq> [] \<and> FIELD_ID_RE_match ''a''
   \<and> map_of [(''a'', \<lparr>field_id = ''a'', datatable_id = ''models'', sql_expr = ''a'', label = None\<rparr>)] ''a''
       = Some \<lparr>field_id = ''a'', datatable_id = ''models'', sql_expr = ''a'', label = None\<rparr>
   \<and> validate_v1
        [(''a'', \<lparr>field_id = ''a'', datatable_id = ''models'', sql_expr = ''a'', label = None\<rparr>)]
        [''a''] ''0.1.0'' ''2024-01-01T00:00:00Z'' =
     Inr ([''a''],
       \<lparr>metaquery_version = ''0.1.0'', schema_version = 1, timestamp = ''2024-01-01T00:00:00Z'',
        decision = ''BLOCK'', status = ''ERROR'', version = ''V1'', source = None,
        fields_selected = [''a''],
        controls = [(''non_empty_selection'', ''PASS''), (''all_fields_exist'', ''PASS''),
                    (''no_duplicates'', ''PASS''), (''single_source'', ''PASS''),
                    (''valid_source_name'', ''FAIL'')],
        warnings = [],
        error = Some (error_INVALID_SOURCE_NAME ''models'')\<rparr>)"
  by (simp add: run_bad_source regex_examples)

text \<open>
  Claim C1, amended. For a non-empty selection in which every id matches
  \<^verbatim>\<open>^[A-Za-z0-9_]+$\<close>, every id is in the catalog, all selected fields have the same
  \<^verbatim>\<open>datatable_id\<close> \<open>t\<close>, and \<open>t\<close> matches \<^verbatim>\<open>^[A-Z0-9_]+$\<close>, the call returns decision ALLOW
  with status OK, source \<open>t\<close>, \<^verbatim>\<open>fields_selected\<close> the selection deduplicated in
  first-occurrence order, and that same list as the first component of the result.
\<close>

theorem C1_allow_single_source:
  assumes "sel \<noteq> []"
    and "\<forall>fid \<in> set sel. FIELD_ID_RE_match fid"
    and "\<forall>fid \<in> set sel. \<exists>fld. map_of f fid = Some fld \<and> datatable_id fld = t"
    and "SOURCE_RE_match t"
  shows "\<exists>a. validate_v1 f sel mv now = Inr (rev (remdups (rev sel)), a)
     \<and> decision a = ''ALLOW'' \<and> status a = ''OK'' \<and> source a = Some t
     \<and> fields_selected a = rev (remdups (rev sel))"
proof -
  have i: "invalid_ids_of sel = []" using assms(2) by (simp add: invalid_ids_of_Nil_iff)
  have u: "unknown_of f sel = []"
    using assms(3) by (auto simp: unknown_of_Nil_iff dict_contains_def)
  have "fields_by_source f (rev (remdups (rev sel))) = [(t, rev (remdups (rev sel)))]"
    using assms(1,3) by (intro fields_by_source_single) simp_all
  from validate_v1_allow[OF assms(1) i u this assms(4)] show ?thesis by simp
qed

text \<open>Claim C1, amended, at the test suite's selection with a repeated id.\<close>

theorem C1_allow_single_source_witness:
  "\<exists>a. validate_v1 test_fields [''model_id'', ''model_id'', ''run_date''] ''0.1.0'' ''2024-01-01T00:00:00Z''
       = Inr ([''model_id'', ''run_date''], a)
     \<and> decision a = ''ALLOW'' \<and> status a = ''OK'' \<and> source a = Some ''MODELS''
     \<and> fields_selected a = [''model_id'', ''run_date'']"
proof -
  have h1: "[''model_id'', ''model_id'', ''run_date''] \<noteq> []" by simp
  have h2: "\<forall>fid \<in> set [''model_id'', ''model_id'', ''run_date'']. FIELD_ID_RE_match fid"
    by (simp add: regex_examples)
  have h3: "\<forall>fid \<in> set [''model_id'', ''model_id'', ''run_date''].
      \<exists>fld. map_of test_fields fid = Some fld \<and> datatable_id fld = ''MODELS''"
    by (simp add: test_fields_def)
  have h4: "SOURCE_RE_match ''MODELS''" by (simp add: regex_examples)
  show ?thesis
    using C1_allow_single_source[OF h1 h2 h3 h4, of "''0.1.0''" "''2024-01-01T00:00:00Z''"]
    by simp
qed

text \<open>
  Claim C3, as stated, at two calls with the same catalog and selection made at different
  seconds: the results differ, in the \<^verbatim>\<open>timestamp\<close> field of the audit record, which the
  constructor of \<^verbatim>\<open>ValidationResult\<close> reads from the system clock.
\<close>

theorem C3_counterexample:
  "validate_v1 test_fields [''model_id'', ''pd''] ''0.1.0'' ''2024-01-01T00:00:00Z''
     \<noteq> validate_v1 test_fields [''model_id'', ''pd''] ''0.1.0'' ''2024-01-01T00:00:01Z''"
  by (simp add: run_allow)

text \<open>
  Claim C3, amended, on the store. A call is made in a world that holds the catalog at
  address \<open>c\<close> and the selection list at address \<open>s\<close>. Then the call returns a reference \<open>r\<close>
  and an audit \<open>a\<close>, and
  \<^item> the list at \<open>r\<close> and the audit are what \<^verbatim>\<open>validate_v1\<close> computes from the contents of the
    catalog and of the selection at the clock reading of the call;
  \<^item> every object that existed before the call is unchanged after it, in particular the
    catalog and the selection list: the call only adds objects to the store;
  \<^item> the clock is only read, and its reading is the audit's \<^verbatim>\<open>timestamp\<close>;
  \<^item> a second call on the same two objects, made in the world the first call left and at
    any clock reading \<open>now'\<close>, returns a list with the same contents and the same audit
    except that \<^verbatim>\<open>timestamp\<close> is \<open>now'\<close>.
\<close>

theorem C3_deterministic_up_to_timestamp:
  assumes "read_dict (heap w) c = Some F" and "read_list (heap w) s = Some sel"
  shows "\<exists>r ret a w'.
       validate_v1_st w c s mv = Inr ((r, a), w')
     \<and> read_list (heap w') r = Some ret
     \<and> validate_v1 F sel mv (clock w) = Inr (ret, a)
     \<and> take (length (heap w)) (heap w') = heap w
     \<and> read_dict (heap w') c = Some F
     \<and> read_list (heap w') s = Some sel
     \<and> clock w' = clock w
     \<and> timestamp a = clock w
     \<and> (\<exists>r2 w2. validate_v1_st (w'\<lparr>clock := now'\<rparr>) c s mv
                    = Inr ((r2, a\<lparr>timestamp := now'\<rparr>), w2)
            \<and> read_list (heap w2) r2 = Some ret)"
proof -
  have sl: "s < length (heap w)" and cl: "c < length (heap w)"
    using read_list_Some_less[OF assms(2)] read_dict_Some_less[OF assms(1)] by simp_all
  from validate_v1_st_spec[OF assms, of mv] obtain r ret a ex where
    run: "validate_v1_st w c s mv = Inr ((r, a), w\<lparr>heap := heap w @ ex\<rparr>)"
    and ret: "read_list (heap w @ ex) r = Some ret"
    and val: "validate_v1 F sel mv (clock w) = Inr (ret, a)"
    by blast
  let ?w' = "w\<lparr>heap := heap w @ ex\<rparr>"
  let ?w2 = "?w'\<lparr>clock := now'\<rparr>"
  have rd: "read_dict (heap ?w') c = Some F" using cl assms(1) by (simp add: read_append)
  have rl: "read_list (heap ?w') s = Some sel" using sl assms(2) by (simp add: read_append)
  from validate_v1_clock[of F sel mv "clock w" now'] val
  have ts: "timestamp a = clock w"
    and val2: "validate_v1 F sel mv now' = Inr (ret, a\<lparr>timestamp := now'\<rparr>)"
    by auto
  have rd2: "read_dict (heap ?w2) c = Some F" using rd by simp
  have rl2: "read_list (heap ?w2) s = Some sel" using rl by simp
  from validate_v1_st_spec[OF rd2 rl2, of mv] obtain r2 ret2 a2 ex2 where
    run2: "validate_v1_st ?w2 c s mv = Inr ((r2, a2), ?w2\<lparr>heap := heap ?w2 @ ex2\<rparr>)"
    and ret2: "read_list (heap ?w2 @ ex2) r2 = Some ret2"
    and val2': "validate_v1 F sel mv (clock ?w2) = Inr (ret2, a2)"
    by blast
  from val2 val2' have eq: "ret2 = ret" "a2 = a\<lparr>timestamp := now'\<rparr>" by simp_all
  have second: "\<exists>r2 w2. validate_v1_st ?w2 c s mv = Inr ((r2, a\<lparr>timestamp := now'\<rparr>), w2)
            \<and> read_list (heap w2) r2 = Some ret"
    using run2 ret2 unfolding eq by (intro exI[of _ r2] exI[of _ "?w2\<lparr>heap := heap ?w2 @ ex2\<rparr>"]) simp
  show ?thesis
    using run ret val rd rl ts second
    by (intro exI[of _ r] exI[of _ ret] exI[of _ a] exI[of _ ?w']) simp
qed

text \<open>
  Claim C3, amended, in a world that holds the catalog of the test suite at address 0 and
  a selection with a repeated id at address 1: the call allocates one list, leaves the two
  objects as they were, and the call that follows one second later gives the same list and
  the same audit with the later timestamp.
\<close>

theorem C3_deterministic_up_to_timestamp_witness:
  "\<exists>r a w'.
       validate_v1_st
         \<lparr>heap = [ODict test_fields, OList [''model_id'', ''model_id'', ''run_date'']],
          clock = ''2024-01-01T00:00:00Z''\<rparr> 0 1 ''0.1.0'' = Inr ((r, a), w')
     \<and> read_list (heap w') r = Some [''model_id'', ''run_date'']
     \<and> take 2 (heap w') = [ODict test_fields, OList [''model_id'', ''model_id'', ''run_date'']]
     \<and> decision a = ''ALLOW''
     \<and> timestamp a = ''2024-01-01T00:00:00Z''
     \<and> (\<exists>r2 w2. validate_v1_st (w'\<lparr>clock := ''2024-01-01T00:00:01Z''\<rparr>) 0 1 ''0.1.0''
                    = Inr ((r2, a\<lparr>timestamp := ''2024-01-01T00:00:01Z''\<rparr>), w2)
            \<and> read_list (heap w2) r2 = Some [''model_id'', ''run_date''])"
proof -
  let ?w = "\<lparr>heap = [ODict test_fields, OList [''model_id'', ''model_id'', ''run_date'']],
          clock = ''2024-01-01T00:00:00Z''\<rparr>"
  have h1: "read_dict (heap ?w) 0 = Some test_fields" by (simp add: read_dict_def)
  have h2: "read_list (heap ?w) 1 = Some [''model_id'', ''model_id'', ''run_date'']"
    by (simp add: read_list_def)
  from C3_deterministic_up_to_timestamp[OF h1 h2, of "''0.1.0''" "''2024-01-01T00:00:01Z''"]
  obtain r ret a w' where
    f: "validate_v1_st ?w 0 1 ''0.1.0'' = Inr ((r, a), w')"
       "read_list (heap w') r = Some ret"
       "validate_v1 test_fields [''model_id'', ''model_id'', ''run_date''] ''0.1.0'' (clock ?w)
          = Inr (ret, a)"
       "take (length (heap ?w)) (heap w') = heap ?w"
       "timestamp a = clock ?w"
       "\<exists>r2 w2. validate_v1_st (w'\<lparr>clock := ''2024-01-01T00:00:01Z''\<rparr>) 0 1 ''0.1.0''
                    = Inr ((r2, a\<lparr>timestamp := ''2024-01-01T00:00:01Z''\<rparr>), w2)
            \<and> read_list (heap w2) r2 = Some ret"
    by blast
  from f(3) have ret: "ret = [''model_id'', ''run_date'']" and dec: "decision a = ''ALLOW''"
    unfolding run_allow_dup by auto
  show ?thesis
    using f(1,2,4,5,6) dec unfolding ret
    by (intro exI[of _ r] exI[of _ a] exI[of _ w']) (simp add: numeral_2_eq_2)
qed

text \<open>
  Claim C4 (idempotence). If the call on a catalog and a selection returns ALLOW with the
  deduplicated list \<open>D\<close> and the audit \<open>a\<close>, then the call on the same catalog with \<open>D\<close> as the
  selection returns \<open>D\<close> again with the audit \<open>a\<close> in which the warnings are empty and the
  timestamp is the clock reading of the second call: the same ALLOW decision and status,
  the same source, the same \<^verbatim>\<open>fields_selected\<close> and controls, no error and no duplicate
  warning.
\<close>

theorem C4_idempotent:
  assumes "validate_v1 f sel mv now = Inr (D, a)" and "decision a = ''ALLOW''"
  shows "validate_v1 f D mv now' = Inr (D, a\<lparr>timestamp := now', warnings := []\<rparr>)
     \<and> decision (a\<lparr>timestamp := now', warnings := []\<rparr>) = ''ALLOW''
     \<and> source (a\<lparr>timestamp := now', warnings := []\<rparr>) = source a
     \<and> fields_selected a = D"
proof (cases rule: validate_v1_cases[where sel=sel and f=f])
  case empty
  from assms show ?thesis unfolding empty validate_v1_empty by auto
next
  case invalid
  from assms show ?thesis unfolding validate_v1_invalid[OF invalid] by auto
next
  case unknown
  from assms show ?thesis unfolding validate_v1_unknown[OF unknown] by auto
next
  case multi
  then have ne: "length (fields_by_source f (rev (remdups (rev sel)))) \<noteq> 1" by simp
  from assms show ?thesis unfolding validate_v1_multi[OF multi(1,2,3) ne] by auto
next
  case (bad_source t fs)
  from assms show ?thesis unfolding validate_v1_bad_source[OF bad_source] by auto
next
  case (allow t fs)
  from assms(1) have D: "D = rev (remdups (rev sel))"
    and a: "a = \<lparr>metaquery_version = mv, schema_version = 1, timestamp = now,
        decision = ''ALLOW'', status = ''OK'', version = ''V1'', source = Some t,
        fields_selected = rev (remdups (rev sel)),
        controls = [(''non_empty_selection'', ''PASS''), (''all_fields_exist'', ''PASS''),
                    (''no_duplicates'', ''PASS''), (''single_source'', ''PASS''),
                    (''valid_source_name'', ''PASS'')],
        warnings = map duplicate_warning (snd (dedupe_loop sel [] {} [])),
        error = None\<rparr>"
    unfolding validate_v1_allow[OF allow] by auto
  have dD: "distinct D" unfolding D by simp
  then have DD: "rev (remdups (rev D)) = D" by (simp add: distinct_remdups_id)
  have sD: "set D = set sel" unfolding D by simp
  have h1: "D \<noteq> []" using allow(1) sD by auto
  have h2: "invalid_ids_of D = []" using allow(2) sD by (simp add: invalid_ids_of_Nil_iff)
  have h3: "unknown_of f D = []" using allow(3) sD by (simp add: unknown_of_Nil_iff)
  have h4: "fields_by_source f (rev (remdups (rev D))) = [(t, fs)]"
    unfolding DD using allow(4) D by simp
  have w: "snd (dedupe_loop D [] {} []) = []" using dD by (rule dedupe_loop_distinct)
  show ?thesis
    unfolding validate_v1_allow[OF h1 h2 h3 h4 allow(5)] DD w
    unfolding a D[symmetric] by simp
qed

text \<open>Claim C4 at the test suite's selection with a repeated id.\<close>

theorem C4_idempotent_witness:
  "validate_v1 test_fields [''model_id'', ''run_date''] ''0.1.0'' ''2024-01-01T00:00:09Z'' =
     Inr ([''model_id'', ''run_date''],
       \<lparr>metaquery_version = ''0.1.0'', schema_version = 1, timestamp = ''2024-01-01T00:00:09Z'',
        decision = ''ALLOW'', status = ''OK'', version = ''V1'', source = Some ''MODELS'',
        fields_selected = [''model_id'', ''run_date''],
        controls = [(''non_empty_selection'', ''PASS''), (''all_fields_exist'', ''PASS''),
                    (''no_duplicates'', ''PASS''), (''single_source'', ''PASS''),
                    (''valid_source_name'', ''PASS'')],
        warnings = [], error = None\<rparr>)"
  using C4_idempotent[OF run_allow_dup[of "''0.1.0''" "''2024-01-01T00:00:00Z''"],
      of "''2024-01-01T00:00:09Z''"]
  by simp

text \<open>
  Claim C5. For a selection that reaches the deduplication step (non-empty, every id
  well-formed, every id in the catalog) the control \<^verbatim>\<open>no_duplicates\<close> is recorded PASS; every
  warning has the code DUPLICATE_FIELDS; and for each id the warnings that carry it are
  exactly one, with count equal to the number of occurrences of the id in the selection,
  when the id occurs more than once, and none otherwise. A selection without repetition
  yields no warning.
\<close>

theorem C5_duplicate_warnings:
  assumes "sel \<noteq> []"
    and "\<forall>fid \<in> set sel. FIELD_ID_RE_match fid"
    and "\<forall>fid \<in> set sel. dict_contains f fid"
  shows "\<exists>d a. validate_v1 f sel mv now = Inr (d, a)
     \<and> map_of (controls a) ''no_duplicates'' = Some ''PASS''
     \<and> (\<forall>w \<in> set (warnings a). map_of w ''code'' = Some (PStr ''DUPLICATE_FIELDS''))
     \<and> (\<forall>fid. filter (\<lambda>w. map_of w ''field_id'' = Some (PStr fid)) (warnings a) =
           (if 1 < count_list sel fid
            then [[(''code'', PStr ''DUPLICATE_FIELDS''), (''field_id'', PStr fid),
                   (''count'', PInt (int (count_list sel fid))),
                   (''message'', PStr (''field_id '' @ [CHR 0x27] @ fid @ [CHR 0x27]
                      @ '' appears '' @ str_int (int (count_list sel fid))
                      @ '' times. Auto-deduplicated to single occurrence.''))]]
            else []))
     \<and> (distinct sel \<longrightarrow> warnings a = [])"
proof -
  have i: "invalid_ids_of sel = []" using assms(2) by (simp add: invalid_ids_of_Nil_iff)
  have u: "unknown_of f sel = []" using assms(3) by (simp add: unknown_of_Nil_iff)
  let ?W = "map duplicate_warning (snd (dedupe_loop sel [] {} []))"
  have w1: "\<forall>w \<in> set ?W. map_of w ''code'' = Some (PStr ''DUPLICATE_FIELDS'')"
    by (auto simp: duplicate_warning_field_id)
  have w2: "\<forall>fid. filter (\<lambda>w. map_of w ''field_id'' = Some (PStr fid)) ?W =
           (if 1 < count_list sel fid
            then [[(''code'', PStr ''DUPLICATE_FIELDS''), (''field_id'', PStr fid),
                   (''count'', PInt (int (count_list sel fid))),
                   (''message'', PStr (''field_id '' @ [CHR 0x27] @ fid @ [CHR 0x27]
                      @ '' appears '' @ str_int (int (count_list sel fid))
                      @ '' times. Auto-deduplicated to single occurrence.''))]]
            else [])"
    unfolding warnings_for_field by (simp add: duplicate_warning_def)
  have w3: "distinct sel \<longrightarrow> ?W = []" by (simp add: dedupe_loop_distinct)
  show ?thesis
  proof (cases rule: validate_v1_cases[where sel=sel and f=f])
    case empty
    with assms(1) show ?thesis by simp
  next
    case invalid
    with i show ?thesis by simp
  next
    case unknown
    with u show ?thesis by simp
  next
    case multi
    then have ne: "length (fields_by_source f (rev (remdups (rev sel)))) \<noteq> 1" by simp
    show ?thesis unfolding validate_v1_multi[OF multi(1,2,3) ne] using w1 w2 w3 by simp
  next
    case (bad_source t fs)
    show ?thesis unfolding validate_v1_bad_source[OF bad_source] using w1 w2 w3 by simp
  next
    case (allow t fs)
    show ?thesis unfolding validate_v1_allow[OF allow] using w1 w2 w3 by simp
  qed
qed

text \<open>
  Claim C5 at the test suite's selection in which \<^verbatim>\<open>model_id\<close> occurs twice: one warning,
  for \<^verbatim>\<open>model_id\<close>, with count 2.
\<close>

theorem C5_duplicate_warnings_witness:
  "\<exists>d a. validate_v1 test_fields [''model_id'', ''model_id'', ''run_date''] ''0.1.0''
         ''2024-01-01T00:00:00Z'' = Inr (d, a)
     \<and> map_of (controls a) ''no_duplicates'' = Some ''PASS''
     \<and> map (\<lambda>w. (map_of w ''code'', map_of w ''field_id'', map_of w ''count'')) (warnings a)
         = [(Some (PStr ''DUPLICATE_FIELDS''), Some (PStr ''model_id''), Some (PInt 2))]"
proof -
  have h1: "[''model_id'', ''model_id'', ''run_date''] \<noteq> []" by simp
  have h2: "\<forall>fid \<in> set [''model_id'', ''model_id'', ''run_date'']. FIELD_ID_RE_match fid"
    by (simp add: regex_examples)
  have h3: "\<forall>fid \<in> set [''model_id'', ''model_id'', ''run_date'']. dict_contains test_fields fid"
    by (simp add: dict_contains_def test_fields_def)
  show ?thesis
    using C5_duplicate_warnings[OF h1 h2 h3, of "''0.1.0''" "''2024-01-01T00:00:00Z''"]
    unfolding run_allow_dup
    by (simp add: duplicate_warning_def)
qed



text \<open>
  Claim C9. The call never raises: for every input it returns a pair. When the grouping
  step is reached, that is when the selection is non-empty, has no malformed id and no id
  missing from the catalog, every lookup \<^verbatim>\<open>fields_by_id[fid]\<close> for \<open>fid\<close> in the deduplicated
  list succeeds, the grouping loop ends without KeyError, and the dictionary \<^verbatim>\<open>sources\<close> it
  builds has one entry per distinct source table and at least one entry; hence the test
  \<^verbatim>\<open>len(sources) != 1\<close> holds exactly when there are two or more distinct source tables.
\<close>

theorem C9_grouping_lookups_succeed:
  "(\<exists>d a. validate_v1 f sel mv now = Inr (d, a))
   \<and> (sel \<noteq> [] \<and> invalid_ids_of sel = [] \<and> unknown_of f sel = [] \<longrightarrow>
        (\<forall>fid \<in> set (fst (dedupe_loop sel [] {} [])). \<exists>fld. dict_getitem f fid = Inr fld)
      \<and> (\<exists>sources. group_loop f (fst (dedupe_loop sel [] {} [])) [] = Inr sources
            \<and> 1 \<le> length sources
            \<and> length sources
                = length (remdups (datatable_ids f (fst (dedupe_loop sel [] {} []))))
            \<and> (length sources \<noteq> 1)
                = (2 \<le> length (remdups (datatable_ids f (fst (dedupe_loop sel [] {} [])))))))"
proof (intro conjI impI)
  show "\<exists>d a. validate_v1 f sel mv now = Inr (d, a)"
  proof (cases rule: validate_v1_cases[where sel=sel and f=f])
    case empty
    show ?thesis unfolding empty validate_v1_empty by simp
  next
    case invalid
    show ?thesis unfolding validate_v1_invalid[OF invalid] by simp
  next
    case unknown
    show ?thesis unfolding validate_v1_unknown[OF unknown] by simp
  next
    case multi
    then have ne: "length (fields_by_source f (rev (remdups (rev sel)))) \<noteq> 1" by simp
    show ?thesis unfolding validate_v1_multi[OF multi(1,2,3) ne] by simp
  next
    case (bad_source t fs)
    show ?thesis unfolding validate_v1_bad_source[OF bad_source] by simp
  next
    case (allow t fs)
    show ?thesis unfolding validate_v1_allow[OF allow] by simp
  qed
next
  assume h: "sel \<noteq> [] \<and> invalid_ids_of sel = [] \<and> unknown_of f sel = []"
  then have u: "unknown_of f sel = []" and ne: "sel \<noteq> []" by simp_all
  show "\<forall>fid \<in> set (fst (dedupe_loop sel [] {} [])). \<exists>fld. dict_getitem f fid = Inr fld"
    using u
    by (auto simp: fst_dedupe_loop unknown_of_Nil_iff dict_contains_def dict_getitem_def)
  let ?S = "fields_by_source f (rev (remdups (rev sel)))"
  have g: "group_loop f (fst (dedupe_loop sel [] {} [])) [] = Inr ?S"
    unfolding fst_dedupe_loop using u by (rule group_loop_deduped)
  have l1: "1 \<le> length ?S"
    using fields_by_source_nonempty[OF ne u] by (cases ?S) simp_all
  have l2: "length ?S = length (remdups (datatable_ids f (fst (dedupe_loop sel [] {} []))))"
    by (simp add: fst_dedupe_loop length_fields_by_source)
  have l3: "(length ?S \<noteq> 1)
      = (2 \<le> length (remdups (datatable_ids f (fst (dedupe_loop sel [] {} [])))))"
    using l1 l2 by auto
  show "\<exists>sources. group_loop f (fst (dedupe_loop sel [] {} [])) [] = Inr sources
            \<and> 1 \<le> length sources
            \<and> length sources
                = length (remdups (datatable_ids f (fst (dedupe_loop sel [] {} []))))
            \<and> (length sources \<noteq> 1)
                = (2 \<le> length (remdups (datatable_ids f (fst (dedupe_loop sel [] {} [])))))"
    using g l1 l2 l3 by blast
qed

text \<open>
  Claim C9 at the test suite's two-table selection: the grouping loop returns both
  entries.
\<close>

theorem C9_grouping_lookups_succeed_witness:
  "[''model_id'', ''customer_age''] \<noteq> []
   \<and> invalid_ids_of [''model_id'', ''customer_age''] = []
   \<and> unknown_of test_fields [''model_id'', ''customer_age''] = []
   \<and> (\<exists>sources. group_loop test_fields (fst (dedupe_loop [''model_id'', ''customer_age''] [] {} [])) []
          = Inr sources \<and> length sources = 2)
   \<and> (\<exists>d a. validate_v1 test_fields [''model_id'', ''customer_age''] ''0.1.0''
          ''2024-01-01T00:00:00Z'' = Inr (d, a))"
proof -
  let ?sel = "[''model_id'', ''customer_age'']"
  have h: "?sel \<noteq> [] \<and> invalid_ids_of ?sel = [] \<and> unknown_of test_fields ?sel = []"
    by (simp add: invalid_ids_of_def unknown_of_def dict_contains_def test_fields_def
        regex_examples)
  have dts: "datatable_ids test_fields (fst (dedupe_loop ?sel [] {} [])) = [''MODELS'', ''CUSTOMERS'']"
    by (simp add: datatable_ids_def List.map_filter_def source_of_def test_fields_def)
  show ?thesis
    using C9_grouping_lookups_succeed[of test_fields ?sel "''0.1.0''" "''2024-01-01T00:00:00Z''"] h
    unfolding dts
    by (simp add: numeral_2_eq_2) blast
qed

text \<open>
  Claim C2, as stated, at the passing selection of the test suite: six checks are executed
  and all pass, but the controls mapping has five entries, because the field-id syntax
  check and the field existence check write the same key \<^verbatim>\<open>all_fields_exist\<close> and a passing
  syntax check writes nothing. The entries of the controls are not one per executed check.
\<close>

theorem C2_counterexample:
  "validate_v1 test_fields [''model_id'', ''pd''] ''0.1.0'' ''2024-01-01T00:00:00Z'' =
     Inr ([''model_id'', ''pd''],
       \<lparr>metaquery_version = ''0.1.0'', schema_version = 1, timestamp = ''2024-01-01T00:00:00Z'',
        decision = ''ALLOW'', status = ''OK'', version = ''V1'', source = Some ''MODELS'',
        fields_selected = [''model_id'', ''pd''],
        controls = [(''non_empty_selection'', ''PASS''), (''all_fields_exist'', ''PASS''),
                    (''no_duplicates'', ''PASS''), (''single_source'', ''PASS''),
                    (''valid_source_name'', ''PASS'')],
        warnings = [], error = None\<rparr>)
   \<and> map control_entry (checks_executed test_fields [''model_id'', ''pd'']) =
       [(''non_empty_selection'', ''PASS''), (''all_fields_exist'', ''PASS''),
        (''all_fields_exist'', ''PASS''), (''no_duplicates'', ''PASS''),
        (''single_source'', ''PASS''), (''valid_source_name'', ''PASS'')]"
  by (simp add: run_allow checks_executed_test_allow control_entry_def)

text \<open>
  Claim C2, amended. For every input the checks run in the fixed order
  non_empty_selection, field-id syntax, field existence, no_duplicates, single_source,
  valid_source_name, and the first failing check ends the call. The executed checks are a
  non-empty initial segment of that order; the outcome of each executed check is what the
  check requires of the inputs; every executed check but the last has passed. When some
  check of the order fails on the inputs, the error object carries the code of the first
  such check, and that check is the last one executed; when none fails, all six are
  executed, no error object is attached and the decision is ALLOW. The controls mapping
  holds, in execution order, one entry for each executed check other than a passing
  field-id syntax check, which records nothing: the syntax check writes the key
  \<^verbatim>\<open>all_fields_exist\<close> only when it fails, and otherwise that key is written by the existence
  check. All entries but the last are PASS, and the last one is FAIL exactly when an error
  object is attached.
\<close>

theorem C2_ordered_short_circuit:
  "\<exists>d a. validate_v1 f sel mv now = Inr (d, a)
     \<and> controls a = map control_entry
          (filter (\<lambda>ce. ce \<noteq> (FieldIdSyntax, True)) (checks_executed f sel))
     \<and> checks_executed f sel \<noteq> []
     \<and> map fst (checks_executed f sel) = take (length (checks_executed f sel)) check_order
     \<and> map snd (checks_executed f sel)
          = map (check_holds f sel) (map fst (checks_executed f sel))
     \<and> list_all snd (butlast (checks_executed f sel))
     \<and> (case find (\<lambda>c. \<not> check_holds f sel c) check_order of
           None \<Rightarrow> error a = None \<and> decision a = ''ALLOW''
                  \<and> map fst (checks_executed f sel) = check_order
         | Some c \<Rightarrow> fst (last (checks_executed f sel)) = c
                  \<and> decision a = ''BLOCK''
                  \<and> (\<exists>e. error a = Some e
                        \<and> map_of e ''code'' = map_option PStr (error_code c)
                        \<and> error_code c \<noteq> None))
     \<and> (error a = None) = snd (last (checks_executed f sel))
     \<and> map snd (controls a) = replicate (length (controls a) - 1) ''PASS''
          @ [if error a = None then ''PASS'' else ''FAIL'']"
proof (cases rule: validate_v1_cases[where sel=sel and f=f])
  case empty
  show ?thesis unfolding empty validate_v1_empty checks_executed_empty
    by (simp add: control_entry_def check_order_def error_EMPTY_SELECTION_def)
next
  case invalid
  have h: "check_holds f sel NonEmptySelection" "\<not> check_holds f sel FieldIdSyntax"
    using invalid by (simp_all add: check_holds_syntax del: check_holds.simps(2))
  show ?thesis unfolding validate_v1_invalid[OF invalid] checks_executed_invalid[OF invalid]
    using h by (simp add: control_entry_def check_order_def error_INVALID_FIELD_ID_def
        del: check_holds.simps)
next
  case unknown
  have h: "check_holds f sel NonEmptySelection" "check_holds f sel FieldIdSyntax"
    "\<not> check_holds f sel FieldExistence"
    using unknown
    by (simp_all add: check_holds_syntax check_holds_existence del: check_holds.simps(2,3))
  show ?thesis unfolding validate_v1_unknown[OF unknown] checks_executed_unknown[OF unknown]
    using h by (simp add: control_entry_def check_order_def error_FIELD_NOT_FOUND_def
        del: check_holds.simps)
next
  case multi
  then have ne: "length (fields_by_source f (rev (remdups (rev sel)))) \<noteq> 1" by simp
  have h: "check_holds f sel NonEmptySelection" "check_holds f sel FieldIdSyntax"
    "check_holds f sel FieldExistence" "check_holds f sel NoDuplicates"
    "\<not> check_holds f sel SingleSource"
    using multi(1,2,3) ne
    by (simp_all add: check_holds_syntax check_holds_existence check_holds_single
        del: check_holds.simps(2,3,5))
  show ?thesis
    unfolding validate_v1_multi[OF multi(1,2,3) ne] checks_executed_multi[OF multi(1,2,3) ne]
    using h by (simp add: control_entry_def check_order_def error_MULTI_SOURCE_NOT_ALLOWED_def
        del: check_holds.simps)
next
  case (bad_source t fs)
  have h: "check_holds f sel NonEmptySelection" "check_holds f sel FieldIdSyntax"
    "check_holds f sel FieldExistence" "check_holds f sel NoDuplicates"
    "check_holds f sel SingleSource" "\<not> check_holds f sel ValidSourceName"
    using bad_source
    by (simp_all add: check_holds_syntax check_holds_existence check_holds_single
        check_holds_valid[OF bad_source(4)] del: check_holds.simps(2,3,5,6))
  show ?thesis
    unfolding validate_v1_bad_source[OF bad_source] checks_executed_bad_source[OF bad_source]
    using h by (simp add: control_entry_def check_order_def error_INVALID_SOURCE_NAME_def
        del: check_holds.simps)
next
  case (allow t fs)
  have h: "check_holds f sel NonEmptySelection" "check_holds f sel FieldIdSyntax"
    "check_holds f sel FieldExistence" "check_holds f sel NoDuplicates"
    "check_holds f sel SingleSource" "check_holds f sel ValidSourceName"
    using allow
    by (simp_all add: check_holds_syntax check_holds_existence check_holds_single
        check_holds_valid[OF allow(4)] del: check_holds.simps(2,3,5,6))
  show ?thesis unfolding validate_v1_allow[OF allow] checks_executed_allow[OF allow]
    using h by (simp add: control_entry_def check_order_def del: check_holds.simps)
qed

text \<open>
  Claim C2, amended, at a selection in which both the syntax check and the existence
  check fail (\<^verbatim>\<open>zz\<close> is well-formed and missing from the catalog, \<^verbatim>\<open>a-b\<close> is malformed): the
  syntax check comes first, so two checks run and the error code is INVALID_FIELD_ID.
\<close>

theorem C2_ordered_short_circuit_witness:
  "\<not> check_holds test_fields [''zz'', ''a-b''] FieldIdSyntax
   \<and> \<not> check_holds test_fields [''zz'', ''a-b''] FieldExistence
   \<and> (\<exists>d a e. validate_v1 test_fields [''zz'', ''a-b''] ''0.1.0'' ''2024-01-01T00:00:00Z''
          = Inr (d, a)
        \<and> checks_executed test_fields [''zz'', ''a-b'']
            = [(NonEmptySelection, True), (FieldIdSyntax, False)]
        \<and> controls a = [(''non_empty_selection'', ''PASS''), (''all_fields_exist'', ''FAIL'')]
        \<and> error a = Some e \<and> map_of e ''code'' = Some (PStr ''INVALID_FIELD_ID''))"
proof -
  let ?sel = "[''zz'', ''a-b'']"
  have m: "FIELD_ID_RE_match ''zz''" "\<not> FIELD_ID_RE_match ''a-b''"
    by (simp_all add: FIELD_ID_RE_match_def class_plus_match_def before_final_newline_def
        is_upper_def is_lower_def is_digit_def)
  have ch: "check_holds test_fields ?sel NonEmptySelection"
    "\<not> check_holds test_fields ?sel FieldIdSyntax"
    "\<not> check_holds test_fields ?sel FieldExistence"
    by (simp_all add: m dict_contains_def test_fields_def)
  have ce: "checks_executed test_fields ?sel
      = [(NonEmptySelection, True), (FieldIdSyntax, False)]"
    by (rule checks_executed_invalid) (simp_all add: invalid_ids_of_def m)
  have fnd: "find (\<lambda>c. \<not> check_holds test_fields ?sel c) check_order = Some FieldIdSyntax"
    using ch by (simp add: check_order_def)
  show ?thesis
    using C2_ordered_short_circuit[of test_fields ?sel "''0.1.0''" "''2024-01-01T00:00:00Z''"] ch
    unfolding ce fnd
    by (simp add: control_entry_def) blast
qed

end
